theory Spec2Isabelle
  imports Main "HOL-Library.Char_ord" "HOL-Library.List_Lexorder" "HOL-Library.AList"
    "HOL-Library.Multiset"
begin

section \<open>Python values used by the todo application\<close>

text \<open>
  The program is the Python package \<^verbatim>\<open>todo\<close> (\<^verbatim>\<open>src/todo/__init__.py\<close>): a class
  \<^verbatim>\<open>TodoApp\<close> with two storage backends, selected by the string \<^verbatim>\<open>db_type\<close>
  (\<^verbatim>\<open>"json"\<close> or \<^verbatim>\<open>"sqlite3"\<close>). Exceptions are values of the type \<open>error\<close>; a method
  that mutates \<^verbatim>\<open>self\<close> returns the exception it raised (if any) together with the
  state it left behind, so that "the store is unchanged after a failure" is a statement
  to be proved and not a convention.

  Strings are byte strings in UTF-8. Python compares \<^verbatim>\<open>str\<close> values by code point and
  SQLite's default collation compares the UTF-8 bytes; both orders agree with the
  lexicographic order on \<open>string\<close> used here.
\<close>

datatype error =
    ValueError string
  | KeyError string
  | OverflowError
  | AttributeError
  | ProgrammingError
  | JSONDecodeError
  | DatabaseError

subsection \<open>datetime\<close>

text \<open>
  A \<^verbatim>\<open>datetime.datetime\<close> value. Microseconds are left out: the format used by the
  program prints minutes, and every offset of the time zone database is a whole number of
  seconds. A time zone is either the cached \<^verbatim>\<open>zoneinfo.ZoneInfo("UTC")\<close> object, which
  the program recognises by \<^verbatim>\<open>==\<close>, or any other \<^verbatim>\<open>tzinfo\<close>, given by its key and by
  the offset from UTC (in seconds) that it reports for the datetime that carries it.
\<close>

datatype tzinfo = ZoneInfo_UTC | ZoneInfo string int

fun utcoffset :: "tzinfo \<Rightarrow> int" where
  "utcoffset ZoneInfo_UTC = 0"
| "utcoffset (ZoneInfo k off) = off"

record datetime =
  year :: nat
  month :: nat
  day :: nat
  hour :: nat
  minute :: nat
  second :: nat
  tzinfo :: "tzinfo option"

definition MINYEAR :: nat where "MINYEAR = 1"
definition MAXYEAR :: nat where "MAXYEAR = 9999"
definition MAXORDINAL :: int where "MAXORDINAL = 3652059"

definition is_leap :: "nat \<Rightarrow> bool" where
  "is_leap y = (y mod 4 = 0 \<and> (y mod 100 \<noteq> 0 \<or> y mod 400 = 0))"

definition DAYS_IN_MONTH :: "nat list" where
  "DAYS_IN_MONTH = [0, 31, 28, 31, 30, 31, 30, 31, 31, 30, 31, 30, 31]"

definition DAYS_BEFORE_MONTH :: "nat list" where
  "DAYS_BEFORE_MONTH = [0, 0, 31, 59, 90, 120, 151, 181, 212, 243, 273, 304, 334]"

definition days_before_year :: "nat \<Rightarrow> nat" where
  "days_before_year y = (let y1 = y - 1 in y1 * 365 + y1 div 4 - y1 div 100 + y1 div 400)"

definition days_in_month :: "nat \<Rightarrow> nat \<Rightarrow> nat" where
  "days_in_month y m = (if m = 2 \<and> is_leap y then 29 else DAYS_IN_MONTH ! m)"

definition days_before_month :: "nat \<Rightarrow> nat \<Rightarrow> nat" where
  "days_before_month y m = DAYS_BEFORE_MONTH ! m + (if 2 < m \<and> is_leap y then 1 else 0)"

definition ymd2ord :: "nat \<Rightarrow> nat \<Rightarrow> nat \<Rightarrow> nat" where
  "ymd2ord y m d = days_before_year y + days_before_month y m + d"

text \<open>
  \<^verbatim>\<open>_ord2ymd\<close> of the datetime module: the ordinal is split into 400-, 100-, 4- and
  1-year cycles; the month is estimated by \<open>(n + 50) >> 5\<close> and corrected downwards.
\<close>

definition ord2ymd :: "nat \<Rightarrow> nat \<times> nat \<times> nat" where
  "ord2ymd n0 =
    (let n = n0 - 1;
         n400 = n div 146097; n = n mod 146097;
         y = n400 * 400 + 1;
         n100 = n div 36524; n = n mod 36524;
         n4 = n div 1461; n = n mod 1461;
         n1 = n div 365; n = n mod 365;
         y = y + n100 * 100 + n4 * 4 + n1
     in if n1 = 4 \<or> n100 = 4 then (y - 1, 12, 31)
        else
          (let leapyear = (n1 = 3 \<and> (n4 \<noteq> 24 \<or> n100 = 3));
               m = (n + 50) div 32;
               preceding = DAYS_BEFORE_MONTH ! m + (if 2 < m \<and> leapyear then 1 else 0)
           in if n < preceding
              then (let m' = m - 1;
                        preceding' = preceding -
                          (DAYS_IN_MONTH ! m' + (if m' = 2 \<and> leapyear then 1 else 0))
                    in (y, m', n - preceding' + 1))
              else (y, m, n - preceding + 1)))"

text \<open>The field checks of the constructor; every datetime object satisfies them.\<close>

definition valid_datetime :: "datetime \<Rightarrow> bool" where
  "valid_datetime d =
     (MINYEAR \<le> year d \<and> year d \<le> MAXYEAR \<and> 1 \<le> month d \<and> month d \<le> 12 \<and>
      1 \<le> day d \<and> day d \<le> days_in_month (year d) (month d) \<and>
      hour d < 24 \<and> minute d < 60 \<and> second d < 60)"

definition datetime_new ::
    "nat \<Rightarrow> nat \<Rightarrow> nat \<Rightarrow> nat \<Rightarrow> nat \<Rightarrow> nat \<Rightarrow> tzinfo option \<Rightarrow> error + datetime" where
  "datetime_new y m d hh mm ss tz =
     (let r = \<lparr>year = y, month = m, day = d, hour = hh, minute = mm, second = ss, tzinfo = tz\<rparr>
      in if valid_datetime r then Inr r else Inl (ValueError ''field out of range''))"

definition toordinal :: "datetime \<Rightarrow> nat" where
  "toordinal d = ymd2ord (year d) (month d) (day d)"

text \<open>
  \<open>datetime_sub self off\<close> is \<^verbatim>\<open>self - timedelta(seconds=off)\<close>: the datetime is turned
  into days and seconds, the offset is subtracted, and the result is rebuilt from the
  ordinal of the day. A day outside \<open>1 .. MAXORDINAL\<close> raises \<^verbatim>\<open>OverflowError\<close>.
\<close>

definition datetime_sub :: "datetime \<Rightarrow> int \<Rightarrow> error + datetime" where
  "datetime_sub self off =
    (let total = int (toordinal self) * 86400 + int (hour self) * 3600
                 + int (minute self) * 60 + int (second self) - off;
         days = total div 86400;
         secs = nat (total mod 86400);
         hh = secs div 3600;
         mm = (secs mod 3600) div 60;
         ss = secs mod 60
     in if 0 < days \<and> days \<le> MAXORDINAL
        then (case ord2ymd (nat days) of (y, m, d) \<Rightarrow> datetime_new y m d hh mm ss (tzinfo self))
        else Inl OverflowError)"

text \<open>
  \<^verbatim>\<open>self.astimezone(zoneinfo.ZoneInfo("UTC"))\<close> for an aware datetime whose zone is
  \<open>tz\<close>: subtract the offset and attach the UTC zone.
\<close>

definition astimezone_utc :: "datetime \<Rightarrow> tzinfo \<Rightarrow> error + datetime" where
  "astimezone_utc self tz =
     (case datetime_sub self (utcoffset tz) of
        Inl e \<Rightarrow> Inl e
      | Inr u \<Rightarrow> Inr (u\<lparr>tzinfo := Some ZoneInfo_UTC\<rparr>))"

subsection \<open>strftime("%Y-%m-%dT%H:%MZ")\<close>

definition digit :: "nat \<Rightarrow> char" where
  "digit n = ''0123456789'' ! (n mod 10)"

text \<open>
  \<^verbatim>\<open>datetime.strftime\<close> hands the format to the C library. \<^verbatim>\<open>%m %d %H %M\<close> print two
  digits, padded with a zero. \<^verbatim>\<open>%Y\<close> prints the year as a plain decimal number: on
  Linux (glibc) the years 1 to 999 come out with one to three digits, without leading
  zeros, and only the years from 1000 on have four. A datetime has no year above 9999.
\<close>

definition pad2 :: "nat \<Rightarrow> string" where
  "pad2 n = [digit (n div 10), digit (n mod 10)]"

definition pad4 :: "nat \<Rightarrow> string" where
  "pad4 n = pad2 (n div 100) @ pad2 (n mod 100)"

definition year_str :: "nat \<Rightarrow> string" where
  "year_str y =
     (if y < 10 then [digit y]
      else if y < 100 then pad2 y
      else if y < 1000 then digit (y div 100) # pad2 (y mod 100)
      else pad4 y)"

definition strftime :: "datetime \<Rightarrow> string" where
  "strftime d = year_str (year d) @ ''-'' @ pad2 (month d) @ ''-'' @ pad2 (day d) @ ''T''
                @ pad2 (hour d) @ '':'' @ pad2 (minute d) @ ''Z''"

subsection \<open>The due date string computed by \<^verbatim>\<open>TodoApp.add\<close>\<close>

text \<open>
  Lines 152 to 161 of \<^verbatim>\<open>add\<close>: no due date gives the empty string; an aware datetime
  is printed as it is when its zone is \<^verbatim>\<open>ZoneInfo("UTC")\<close> and after
  \<^verbatim>\<open>astimezone\<close> otherwise; a naive datetime is printed as it is.
\<close>

definition due_date_str :: "datetime option \<Rightarrow> error + string" where
  "due_date_str due_date =
     (case due_date of
        None \<Rightarrow> Inr ''''
      | Some d \<Rightarrow>
          (case tzinfo d of
             Some tz \<Rightarrow>
               (if tz = ZoneInfo_UTC then Inr (strftime d)
                else (case astimezone_utc d tz of
                        Inl e \<Rightarrow> Inl e
                      | Inr u \<Rightarrow> Inr (strftime u)))
           | None \<Rightarrow> Inr (strftime d)))"

text \<open>The fixed pattern \<^verbatim>\<open>YYYY-MM-DDTHH:MMZ\<close>.\<close>

definition is_digit :: "char \<Rightarrow> bool" where
  "is_digit c = (CHR ''0'' \<le> c \<and> c \<le> CHR ''9'')"

definition canonical_utc :: "string \<Rightarrow> bool" where
  "canonical_utc s =
     (length s = 17 \<and>
      is_digit (s ! 0) \<and> is_digit (s ! 1) \<and> is_digit (s ! 2) \<and> is_digit (s ! 3) \<and>
      s ! 4 = CHR ''-'' \<and> is_digit (s ! 5) \<and> is_digit (s ! 6) \<and>
      s ! 7 = CHR ''-'' \<and> is_digit (s ! 8) \<and> is_digit (s ! 9) \<and>
      s ! 10 = CHR ''T'' \<and> is_digit (s ! 11) \<and> is_digit (s ! 12) \<and>
      s ! 13 = CHR '':'' \<and> is_digit (s ! 14) \<and> is_digit (s ! 15) \<and>
      s ! 16 = CHR ''Z'')"

section \<open>The stores\<close>

subsection \<open>Items and records\<close>

text \<open>
  An item as \<^verbatim>\<open>list\<close> returns it: a dictionary with the keys \<^verbatim>\<open>name\<close>,
  \<^verbatim>\<open>description\<close>, \<^verbatim>\<open>due_date\<close> and \<^verbatim>\<open>done\<close>. A row of the table \<^verbatim>\<open>todo\<close>
  has the same four columns, so a row is an item too: the adapter stores \<^verbatim>\<open>done\<close> as
  \<open>0\<close> or \<open>1\<close>, the converter registered for \<^verbatim>\<open>boolean\<close> reads it back, and
  \<^verbatim>\<open>dict_factory\<close> pairs the column names with the values.
\<close>

record todo_item =
  name :: string
  description :: string
  due_date :: string
  "done" :: bool

text \<open>
  The value stored under a name in the JSON document. \<^verbatim>\<open>list\<close> supplies a default for
  \<^verbatim>\<open>due_date\<close> and for \<^verbatim>\<open>done\<close>, which a record of an older file may lack, and none
  for \<^verbatim>\<open>description\<close>, which it reads from every record. So a record always holds
  its description: as a Python dictionary it is never empty, hence always true in a
  condition.
\<close>

record json_rec =
  rec_description :: string
  rec_due_date :: "string option"
  rec_done :: "bool option"

text \<open>
  \<^verbatim>\<open>self._todos\<close>: a dictionary from names to records, in insertion order. The keys of
  a dictionary are distinct.
\<close>

type_synonym json_doc = "(string \<times> json_rec) list"

text \<open>Truth value of \<^verbatim>\<open>self._todos.get(name, None)\<close> and of the result of \<^verbatim>\<open>fetchone()\<close>.\<close>

fun truthy :: "'a option \<Rightarrow> bool" where
  "truthy None = False"
| "truthy (Some r) = True"

subsection \<open>Files and connections\<close>

text \<open>
  A file holds either a JSON document or an SQLite database, whose table \<^verbatim>\<open>todo\<close>
  may not exist yet. \<^verbatim>\<open>json.dump\<close> followed by \<^verbatim>\<open>json.load\<close> gives back a dictionary
  of strings and booleans unchanged, in the same key order, so the file is modelled by
  the document it holds.

  A connection of the \<^verbatim>\<open>sqlite3\<close> module, opened as the program opens it (default
  isolation level, no autocommit): it sees the committed table plus its own changes.
  Before an \<^verbatim>\<open>INSERT\<close>, \<^verbatim>\<open>UPDATE\<close> or \<^verbatim>\<open>DELETE\<close> the module opens a transaction; the
  changes reach the file when \<^verbatim>\<open>commit()\<close> is called, and \<^verbatim>\<open>close()\<close> does not commit.
  \<open>rows\<close> is the table as the connection sees it, in rowid order.
\<close>

datatype db_file = JsonFile json_doc | SqliteFile "todo_item list option"

type_synonym filesystem = "string \<Rightarrow> db_file option"

record connection =
  rows :: "todo_item list"
  in_transaction :: bool
  closed :: bool
  is_database :: bool

record TodoApp =
  db :: string
  db_type :: string
  todos :: json_doc
  conn :: "connection option"

definition TodoApp_init :: "string \<Rightarrow> string \<Rightarrow> TodoApp" where
  "TodoApp_init path ty = \<lparr>db = path, db_type = ty, todos = [], conn = None\<rparr>"

text \<open>
  What \<^verbatim>\<open>self._conn.execute\<close> raises before it runs a statement: \<^verbatim>\<open>self._conn\<close> is
  still \<^verbatim>\<open>None\<close>, the connection is closed, or the file is not a database.
\<close>

definition execute_error :: "connection option \<Rightarrow> error option" where
  "execute_error c =
     (case c of
        None \<Rightarrow> Some AttributeError
      | Some k \<Rightarrow>
          (if closed k then Some ProgrammingError
           else if \<not> is_database k then Some DatabaseError
           else None))"

text \<open>A data-changing statement: the module begins a transaction if none is open.\<close>

definition execute_dml :: "(todo_item list \<Rightarrow> todo_item list) \<Rightarrow> connection \<Rightarrow> connection" where
  "execute_dml f k = k\<lparr>rows := f (rows k), in_transaction := True\<rparr>"

subsection \<open>load, save, close\<close>

definition TodoApp_load :: "filesystem \<Rightarrow> TodoApp \<Rightarrow> error option \<times> filesystem \<times> TodoApp" where
  "TodoApp_load fs self =
     (if db_type self = ''json'' then
        (case fs (db self) of
           None \<Rightarrow> (None, fs, self)
         | Some (JsonFile doc) \<Rightarrow> (None, fs, self\<lparr>todos := doc\<rparr>)
         | Some (SqliteFile t) \<Rightarrow> (Some JSONDecodeError, fs, self))
      else if db_type self = ''sqlite3'' then
        (case fs (db self) of
           Some (JsonFile doc) \<Rightarrow>
             (Some DatabaseError, fs,
              self\<lparr>conn := Some \<lparr>rows = [], in_transaction = False, closed = False,
                                   is_database = False\<rparr>\<rparr>)
         | Some (SqliteFile (Some t)) \<Rightarrow>
             (None, fs,
              self\<lparr>conn := Some \<lparr>rows = t, in_transaction = False, closed = False,
                                   is_database = True\<rparr>\<rparr>)
         | _ \<Rightarrow>
             (None, fs(db self \<mapsto> SqliteFile (Some [])),
              self\<lparr>conn := Some \<lparr>rows = [], in_transaction = False, closed = False,
                                   is_database = True\<rparr>\<rparr>))
      else (Some (ValueError ''only json or sqlite3 are supported database file types''), fs, self))"

definition TodoApp_save :: "filesystem \<Rightarrow> TodoApp \<Rightarrow> error option \<times> filesystem \<times> TodoApp" where
  "TodoApp_save fs self =
     (if db_type self = ''json'' then (None, fs(db self \<mapsto> JsonFile (todos self)), self)
      else (None, fs, self))"

text \<open>
  \<^verbatim>\<open>close\<close>: the JSON backend saves; the SQLite backend closes the connection, which
  ends an open transaction without committing it.
\<close>

definition TodoApp_close :: "filesystem \<Rightarrow> TodoApp \<Rightarrow> error option \<times> filesystem \<times> TodoApp" where
  "TodoApp_close fs self =
     (if db_type self = ''json'' then TodoApp_save fs self
      else if db_type self = ''sqlite3'' then
        (case conn self of
           None \<Rightarrow> (Some AttributeError, fs, self)
         | Some k \<Rightarrow> (None, fs, self\<lparr>conn := Some (k\<lparr>in_transaction := False, closed := True\<rparr>)\<rparr>))
      else (None, fs, self))"

subsection \<open>list\<close>

text \<open>
  \<^verbatim>\<open>list.sort(key=..., reverse=...)\<close> is stable; with \<^verbatim>\<open>reverse=True\<close> the elements
  with equal keys still keep their order. \<open>sort_key\<close> is a stable insertion sort.
\<close>

definition py_sort :: "('a \<Rightarrow> 'k::linorder) \<Rightarrow> bool \<Rightarrow> 'a list \<Rightarrow> 'a list" where
  "py_sort key reverse xs = (if reverse then rev (sort_key key (rev xs)) else sort_key key xs)"

text \<open>The key \<^verbatim>\<open>lambda x: x[sort_by]\<close>, for the four field names accepted by \<^verbatim>\<open>list\<close>.\<close>

definition sort_items :: "string \<Rightarrow> bool \<Rightarrow> todo_item list \<Rightarrow> todo_item list" where
  "sort_items sort_by reverse xs =
     (if sort_by = ''name'' then py_sort name reverse xs
      else if sort_by = ''description'' then py_sort description reverse xs
      else if sort_by = ''done'' then py_sort done reverse xs
      else py_sort due_date reverse xs)"

text \<open>
  \<^verbatim>\<open>ORDER BY column ASC|DESC\<close> on the table. The rows with equal keys come out in
  rowid order in both directions, as the tests of the repository expect
  (\<^verbatim>\<open>sort by done desc\<close>).
\<close>

definition order_by :: "string \<Rightarrow> string \<Rightarrow> todo_item list \<Rightarrow> todo_item list" where
  "order_by sql_sort_by sql_sort_order t = sort_items sql_sort_by (sql_sort_order = ''DESC'') t"

text \<open>\<^verbatim>\<open>str.lower\<close> on ASCII letters.\<close>

definition lower_char :: "char \<Rightarrow> char" where
  "lower_char c = (if CHR ''A'' \<le> c \<and> c \<le> CHR ''Z'' then char_of (of_char c + (32::nat)) else c)"

definition lower :: "string \<Rightarrow> string" where
  "lower s = map lower_char s"

text \<open>The dictionary built for one key of \<^verbatim>\<open>self._todos\<close>: the defaults, updated by the record.\<close>

definition materialise :: "string \<times> json_rec \<Rightarrow> todo_item" where
  "materialise kv =
     \<lparr>name = fst kv,
      description = rec_description (snd kv),
      due_date = (case rec_due_date (snd kv) of None \<Rightarrow> '''' | Some s \<Rightarrow> s),
      done = (case rec_done (snd kv) of None \<Rightarrow> False | Some b \<Rightarrow> b)\<rparr>"

definition TodoApp_list :: "TodoApp \<Rightarrow> string \<Rightarrow> string \<Rightarrow> error + todo_item list" where
  "TodoApp_list self sort_by sort_order =
     (if sort_by \<notin> set [''name'', ''description'', ''done'', ''due_date''] then
        Inl (ValueError ''Invalid sort by, valid values are: [description, done, due_date, name]'')
      else if sort_order \<notin> set [''asc'', ''desc''] then
        Inl (ValueError ''Invalid order by, valid values are: [asc, desc]'')
      else if db_type self = ''json'' then
        Inr (sort_items sort_by (sort_order = ''desc'') (map materialise (todos self)))
      else if db_type self = ''sqlite3'' then
        (let sql_sort_by =
               (if sort_by \<in> set [''name'', ''description'', ''done'', ''due_date'']
                then sort_by else ''name'');
             sql_sort_order = (if lower sort_order = ''desc'' then ''DESC'' else ''ASC'')
         in case execute_error (conn self) of
              Some e \<Rightarrow> Inl e
            | None \<Rightarrow>
                (case conn self of
                   None \<Rightarrow> Inl AttributeError
                 | Some k \<Rightarrow> Inr (order_by sql_sort_by sql_sort_order (rows k))))
      else Inr [])"

subsection \<open>add, remove, done\<close>

definition TodoApp_add ::
    "TodoApp \<Rightarrow> string \<Rightarrow> string \<Rightarrow> datetime option \<Rightarrow> error option \<times> TodoApp" where
  "TodoApp_add self nm descr due =
     (case due_date_str due of
        Inl e \<Rightarrow> (Some e, self)
      | Inr s \<Rightarrow>
          (if db_type self = ''json'' then
             (if truthy (map_of (todos self) nm) then
                (Some (ValueError ''A Todo item with the requested name already exists''), self)
              else
                (None,
                 self\<lparr>todos := AList.update nm
                    \<lparr>rec_description = descr, rec_due_date = Some s, rec_done = Some False\<rparr>
                    (todos self)\<rparr>))
           else if db_type self = ''sqlite3'' then
             (case execute_error (conn self) of
                Some e \<Rightarrow> (Some e, self)
              | None \<Rightarrow>
                  (case conn self of
                     None \<Rightarrow> (Some AttributeError, self)
                   | Some k \<Rightarrow>
                       (let has_todo_res = find (\<lambda>r. name r = nm) (rows k) in
                        if truthy has_todo_res then
                          (Some (ValueError ''A Todo item with the requested name already exists''),
                           self)
                        else
                          (None,
                           self\<lparr>conn := Some (execute_dml
                              (\<lambda>t. t @ [\<lparr>name = nm, description = descr, due_date = s,
                                          done = False\<rparr>]) k)\<rparr>))))
           else (None, self)))"

text \<open>
  \<^verbatim>\<open>del self._todos[name]\<close> raises \<^verbatim>\<open>KeyError(name)\<close> for a missing key;
  \<^verbatim>\<open>DELETE FROM todo WHERE name = ?\<close> deletes the matching rows, if any.
\<close>

definition TodoApp_remove :: "TodoApp \<Rightarrow> string \<Rightarrow> error option \<times> TodoApp" where
  "TodoApp_remove self nm =
     (if db_type self = ''json'' then
        (case map_of (todos self) nm of
           None \<Rightarrow> (Some (KeyError nm), self)
         | Some r \<Rightarrow> (None, self\<lparr>todos := AList.delete nm (todos self)\<rparr>))
      else if db_type self = ''sqlite3'' then
        (case execute_error (conn self) of
           Some e \<Rightarrow> (Some e, self)
         | None \<Rightarrow>
             (case conn self of
                None \<Rightarrow> (Some AttributeError, self)
              | Some k \<Rightarrow>
                  (None, self\<lparr>conn := Some (execute_dml (filter (\<lambda>r. name r \<noteq> nm)) k)\<rparr>)))
      else (None, self))"

definition TodoApp_done :: "TodoApp \<Rightarrow> string \<Rightarrow> error option \<times> TodoApp" where
  "TodoApp_done self nm =
     (if db_type self = ''json'' then
        (case map_of (todos self) nm of
           None \<Rightarrow> (Some (KeyError ''A Todo item with the requested name does not exist''), self)
         | Some r \<Rightarrow>
             (None, self\<lparr>todos := AList.update nm (r\<lparr>rec_done := Some True\<rparr>) (todos self)\<rparr>))
      else if db_type self = ''sqlite3'' then
        (case execute_error (conn self) of
           Some e \<Rightarrow> (Some e, self)
         | None \<Rightarrow>
             (case conn self of
                None \<Rightarrow> (Some AttributeError, self)
              | Some k \<Rightarrow>
                  (let has_todo_res = find (\<lambda>r. name r = nm) (rows k) in
                   case has_todo_res of
                     None \<Rightarrow>
                       (Some (KeyError ''A Todo item with the requested name does not exist''), self)
                   | Some r0 \<Rightarrow>
                       (None,
                        self\<lparr>conn := Some (execute_dml
                           (map (\<lambda>r. if name r = nm then r\<lparr>done := True\<rparr> else r)) k)\<rparr>))))
      else (None, self))"

section \<open>Notions used by the properties\<close>

subsection \<open>Stores and their items\<close>

text \<open>
  A store is a \<^verbatim>\<open>TodoApp\<close> of one of the two backends that can be used: the keys of
  the JSON dictionary are distinct, and the SQLite connection is open on a database.
\<close>

definition store :: "TodoApp \<Rightarrow> bool" where
  "store self =
     (if db_type self = ''json'' then distinct (map fst (todos self))
      else db_type self = ''sqlite3'' \<and> execute_error (conn self) = None)"

definition stored_items :: "TodoApp \<Rightarrow> todo_item list" where
  "stored_items self =
     (if db_type self = ''json'' then map materialise (todos self)
      else (case conn self of None \<Rightarrow> [] | Some k \<Rightarrow> rows k))"

definition has_item :: "TodoApp \<Rightarrow> string \<Rightarrow> bool" where
  "has_item self nm = (nm \<in> set (map name (stored_items self)))"

definition valid_sort :: "string \<Rightarrow> string \<Rightarrow> bool" where
  "valid_sort sort_by sort_order =
     (sort_by \<in> set [''name'', ''description'', ''done'', ''due_date''] \<and>
      sort_order \<in> set [''asc'', ''desc''])"

text \<open>
  \<^verbatim>\<open>add\<close> raises nothing and the store then holds one more item, the last one, with the
  given name and description, the due date string \<open>s\<close> and \<^verbatim>\<open>done\<close> false.
\<close>

definition add_stores :: "TodoApp \<Rightarrow> string \<Rightarrow> string \<Rightarrow> datetime option \<Rightarrow> string \<Rightarrow> bool" where
  "add_stores self nm descr due s =
     (case TodoApp_add self nm descr due of
        (e, self') \<Rightarrow>
          e = None \<and>
          stored_items self' = stored_items self
            @ [\<lparr>name = nm, description = descr, due_date = s, done = False\<rparr>])"

subsection \<open>Sequences of operations\<close>

text \<open>
  A caller that runs several operations on one \<^verbatim>\<open>TodoApp\<close> and goes on after an
  exception: each operation leaves the state its method left.
\<close>

datatype operation = Add string string "datetime option" | Remove string | Done string

fun apply_operation :: "TodoApp \<Rightarrow> operation \<Rightarrow> TodoApp" where
  "apply_operation self (Add nm descr due) = snd (TodoApp_add self nm descr due)"
| "apply_operation self (Remove nm) = snd (TodoApp_remove self nm)"
| "apply_operation self (Done nm) = snd (TodoApp_done self nm)"

definition run_operations :: "TodoApp \<Rightarrow> operation list \<Rightarrow> TodoApp" where
  "run_operations self ops = foldl apply_operation self ops"

subsection \<open>Chronological order\<close>

text \<open>
  The minute a datetime in UTC denotes, counted from the start of year 1, and the
  comparison of two datetimes field by field, as \<^verbatim>\<open>datetime.__lt__\<close> compares them, down
  to the minute.
\<close>

definition utc_minutes :: "datetime \<Rightarrow> nat" where
  "utc_minutes d = (toordinal d * 24 + hour d) * 60 + minute d"

definition chrono_less :: "datetime \<Rightarrow> datetime \<Rightarrow> bool" where
  "chrono_less a b =
     (year a < year b \<or> year a = year b \<and>
       (month a < month b \<or> month a = month b \<and>
         (day a < day b \<or> day a = day b \<and>
           (hour a < hour b \<or> hour a = hour b \<and> minute a < minute b))))"

text \<open>The second a datetime denotes on its own clock, before any offset is applied.\<close>

definition clock_seconds :: "datetime \<Rightarrow> int" where
  "clock_seconds d =
     int (toordinal d) * 86400 + int (hour d) * 3600 + int (minute d) * 60 + int (second d)"

subsection \<open>Example values\<close>

text \<open>The due dates of the tests of \<^verbatim>\<open>add\<close>: 16:00 on 10 October 2024 in three forms.\<close>

definition due_naive :: datetime where
  "due_naive = \<lparr>year = 2024, month = 10, day = 10, hour = 16, minute = 0, second = 0,
                 tzinfo = None\<rparr>"

definition due_utc :: datetime where
  "due_utc = due_naive\<lparr>tzinfo := Some ZoneInfo_UTC\<rparr>"

definition due_new_york :: datetime where
  "due_new_york = due_naive\<lparr>tzinfo := Some (ZoneInfo ''America/New_York'' (- 14400))\<rparr>"

text \<open>Midnight of 1 January of year 1 in local mean time of Tokyo (9:18:59 ahead of UTC): its
  UTC form would be in year 0.\<close>

definition due_year_one :: datetime where
  "due_year_one = \<lparr>year = 1, month = 1, day = 1, hour = 0, minute = 0, second = 0,
                    tzinfo = Some (ZoneInfo ''Asia/Tokyo'' 33539)\<rparr>"

text \<open>One minute before the end of the year 999, without a zone.\<close>

definition due_year_999 :: datetime where
  "due_year_999 = \<lparr>year = 999, month = 12, day = 31, hour = 23, minute = 59, second = 0,
                    tzinfo = None\<rparr>"

text \<open>New stores of both backends, without items.\<close>

definition empty_json_app :: TodoApp where
  "empty_json_app = \<lparr>db = ''todos.json'', db_type = ''json'', todos = [], conn = None\<rparr>"

definition empty_sqlite_app :: TodoApp where
  "empty_sqlite_app =
     \<lparr>db = ''todos.sqlite3'', db_type = ''sqlite3'', todos = [],
      conn = Some \<lparr>rows = [], in_transaction = False, closed = False, is_database = True\<rparr>\<rparr>"

text \<open>The four items of the test data, as a JSON document and as rows.\<close>

definition test_data_json :: json_doc where
  "test_data_json =
     [(''Todo 1'', \<lparr>rec_description = ''This is a description of Todo 1'',
                     rec_due_date = Some ''2024-10-10T17:00Z'', rec_done = None\<rparr>),
      (''Todo 2'', \<lparr>rec_description = ''this is a description of Todo 2'',
                     rec_due_date = None, rec_done = Some True\<rparr>),
      (''Todo 3'', \<lparr>rec_description = ''This is a description of Todo 3'',
                     rec_due_date = Some ''2024-10-08T14:00Z'', rec_done = None\<rparr>),
      (''Todo 4'', \<lparr>rec_description = ''This is a description of Todo 4'',
                     rec_due_date = Some ''2024-10-20T22:00Z'', rec_done = None\<rparr>)]"

definition test_data_rows :: "todo_item list" where
  "test_data_rows = map materialise test_data_json"

definition json_app :: TodoApp where
  "json_app = \<lparr>db = ''todos.json'', db_type = ''json'', todos = test_data_json, conn = None\<rparr>"

definition sqlite_app :: TodoApp where
  "sqlite_app =
     \<lparr>db = ''todos.sqlite3'', db_type = ''sqlite3'', todos = [],
      conn = Some \<lparr>rows = test_data_rows, in_transaction = False, closed = False,
                    is_database = True\<rparr>\<rparr>"

section \<open>Objects and references\<close>

text \<open>
  Whether a dictionary returned by \<^verbatim>\<open>list\<close> shares memory with the store depends on
  which objects the program creates. Here the dictionaries are cells of a heap; an
  address is a position in it and a new object is appended. \<^verbatim>\<open>self._todos\<close> maps a
  name to the address of its record; the rows of the SQLite backend are held by the
  connection and are no Python objects.
\<close>

datatype cell = StoredRec json_rec | ListItem todo_item

type_synonym heap = "cell list"

record TodoApp_refs =
  refs_db_type :: string
  refs_todos :: "(string \<times> nat) list"
  refs_conn :: "connection option"

definition rec_at :: "heap \<Rightarrow> nat \<Rightarrow> json_rec" where
  "rec_at h a =
     (case h ! a of
        StoredRec r \<Rightarrow> r
      | ListItem x \<Rightarrow> \<lparr>rec_description = description x, rec_due_date = Some (due_date x),
                        rec_done = Some (done x)\<rparr>)"

definition item_at :: "heap \<Rightarrow> nat \<Rightarrow> todo_item" where
  "item_at h a =
     (case h ! a of
        ListItem x \<Rightarrow> x
      | StoredRec r \<Rightarrow> materialise ('''', r))"

text \<open>The addresses held by the store are allocated and hold records.\<close>

fun is_stored_rec :: "cell \<Rightarrow> bool" where
  "is_stored_rec (StoredRec r) = True"
| "is_stored_rec (ListItem x) = False"

definition wf_refs :: "heap \<Rightarrow> TodoApp_refs \<Rightarrow> bool" where
  "wf_refs h self =
     list_all (\<lambda>a. a < length h \<and> is_stored_rec (h ! a)) (map snd (refs_todos self))"

text \<open>The state of the application that the heap and the references stand for.\<close>

definition the_app :: "heap \<Rightarrow> TodoApp_refs \<Rightarrow> TodoApp" where
  "the_app h self =
     \<lparr>db = '''', db_type = refs_db_type self,
      todos = map (\<lambda>ka. (fst ka, rec_at h (snd ka))) (refs_todos self),
      conn = refs_conn self\<rparr>"

text \<open>
  The loop of \<^verbatim>\<open>list\<close> for the JSON backend: for each key a new dictionary is created
  from the defaults and the record, and its address is appended to the result.
  For the SQLite backend \<^verbatim>\<open>fetchall\<close> creates one new dictionary for each row.
\<close>

fun alloc_todos :: "heap \<Rightarrow> (string \<times> nat) list \<Rightarrow> heap \<times> nat list" where
  "alloc_todos h [] = (h, [])"
| "alloc_todos h (ka # kas) =
     (let todo = ListItem (materialise (fst ka, rec_at h (snd ka)));
          (h', as) = alloc_todos (h @ [todo]) kas
      in (h', length h # as))"

fun alloc_rows :: "heap \<Rightarrow> todo_item list \<Rightarrow> heap \<times> nat list" where
  "alloc_rows h [] = (h, [])"
| "alloc_rows h (r # rs) =
     (let (h', as) = alloc_rows (h @ [ListItem r]) rs in (h', length h # as))"

definition sort_refs :: "heap \<Rightarrow> string \<Rightarrow> bool \<Rightarrow> nat list \<Rightarrow> nat list" where
  "sort_refs h sort_by reverse as =
     (if sort_by = ''name'' then py_sort (\<lambda>a. name (item_at h a)) reverse as
      else if sort_by = ''description'' then py_sort (\<lambda>a. description (item_at h a)) reverse as
      else if sort_by = ''done'' then py_sort (\<lambda>a. done (item_at h a)) reverse as
      else py_sort (\<lambda>a. due_date (item_at h a)) reverse as)"

definition list_refs ::
    "heap \<Rightarrow> TodoApp_refs \<Rightarrow> string \<Rightarrow> string \<Rightarrow> (error + nat list) \<times> heap" where
  "list_refs h self sort_by sort_order =
     (if sort_by \<notin> set [''name'', ''description'', ''done'', ''due_date''] then
        (Inl (ValueError ''Invalid sort by, valid values are: [description, done, due_date, name]''), h)
      else if sort_order \<notin> set [''asc'', ''desc''] then
        (Inl (ValueError ''Invalid order by, valid values are: [asc, desc]''), h)
      else if refs_db_type self = ''json'' then
        (let (h', as) = alloc_todos h (refs_todos self)
         in (Inr (sort_refs h' sort_by (sort_order = ''desc'') as), h'))
      else if refs_db_type self = ''sqlite3'' then
        (let sql_sort_by =
               (if sort_by \<in> set [''name'', ''description'', ''done'', ''due_date'']
                then sort_by else ''name'');
             sql_sort_order = (if lower sort_order = ''desc'' then ''DESC'' else ''ASC'')
         in case execute_error (refs_conn self) of
              Some e \<Rightarrow> (Inl e, h)
            | None \<Rightarrow>
                (case refs_conn self of
                   None \<Rightarrow> (Inl AttributeError, h)
                 | Some k \<Rightarrow>
                     (let (h', as) = alloc_rows h (order_by sql_sort_by sql_sort_order (rows k))
                      in (Inr as, h'))))
      else (Inr [], h))"

text \<open>
  An assignment to a key of the dictionary at an address, such as
  \<^verbatim>\<open>todo["due_date"] = due_date_tz\<close> in \<^verbatim>\<open>main_cli\<close>: the cell is replaced, whatever
  kind of dictionary it holds.
\<close>

definition set_due_date :: "heap \<Rightarrow> nat \<Rightarrow> string \<Rightarrow> heap" where
  "set_due_date h a v =
     (case h ! a of
        ListItem x \<Rightarrow> h[a := ListItem (x\<lparr>due_date := v\<rparr>)]
      | StoredRec r \<Rightarrow> h[a := StoredRec (r\<lparr>rec_due_date := Some v\<rparr>)])"

definition test_heap :: heap where
  "test_heap = map (\<lambda>kv. StoredRec (snd kv)) test_data_json"

definition json_refs :: TodoApp_refs where
  "json_refs =
     \<lparr>refs_db_type = ''json'',
      refs_todos = [(''Todo 1'', 0), (''Todo 2'', 1), (''Todo 3'', 2), (''Todo 4'', 3)],
      refs_conn = None\<rparr>"

section \<open>The canonical due date string\<close>

subsection \<open>Digits and padded fields\<close>

lemma digit_cases: "digit n \<in> set ''0123456789''"
  unfolding digit_def by (rule nth_mem) simp

lemma is_digit_digit: "is_digit (digit n)"
  using digit_cases [of n] by (auto simp: is_digit_def)

lemma of_char_digit: "of_char (digit n) = (48 + n mod 10 :: nat)"
proof -
  define k where "k = n mod 10"
  have "k < 10" by (simp add: k_def)
  then have "k = 0 \<or> k = 1 \<or> k = 2 \<or> k = 3 \<or> k = 4 \<or> k = 5 \<or> k = 6 \<or> k = 7 \<or> k = 8 \<or> k = 9"
    by arith
  then have "of_char (''0123456789'' ! k) = (48 + k :: nat)"
    by (elim disjE) simp_all
  then show ?thesis by (simp add: digit_def k_def)
qed

lemma year_str_four: "1000 \<le> y \<Longrightarrow> year_str y = pad4 y"
  by (simp add: year_str_def)

lemma year_str_not_Nil: "year_str y \<noteq> []"
  by (simp add: year_str_def pad4_def pad2_def)

lemma length_year_str: "y < 1000 \<Longrightarrow> length (year_str y) < 4"
  by (simp add: year_str_def pad2_def)

lemma canonical_strftime: "1000 \<le> year d \<Longrightarrow> canonical_utc (strftime d)"
  by (simp add: canonical_utc_def strftime_def year_str_four pad2_def pad4_def is_digit_digit
      nth_append)

lemma not_canonical_strftime: "year d < 1000 \<Longrightarrow> \<not> canonical_utc (strftime d)"
  using length_year_str [of "year d"]
  by (simp add: canonical_utc_def strftime_def pad2_def)

lemma datetime_new_valid: "datetime_new y m d hh mm ss tz = Inr u \<Longrightarrow> valid_datetime u"
  by (auto simp: datetime_new_def Let_def split: if_splits)

lemma datetime_sub_valid: "datetime_sub d off = Inr u \<Longrightarrow> valid_datetime u"
  by (auto simp: datetime_sub_def Let_def split: if_splits prod.splits dest: datetime_new_valid)


lemma digit_less_iff: "digit m < digit n \<longleftrightarrow> m mod 10 < n mod 10"
  by (simp add: less_char_def of_char_digit)

lemma digit_eq_iff: "digit m = digit n \<longleftrightarrow> m mod 10 = n mod 10"
proof
  assume "digit m = digit n"
  then have "(of_char (digit m) :: nat) = of_char (digit n)" by simp
  then show "m mod 10 = n mod 10" by (simp add: of_char_digit)
next
  assume "m mod 10 = n mod 10"
  then show "digit m = digit n" by (simp add: digit_def)
qed

lemma lex_div_mod:
  fixes m n k :: nat
  assumes "0 < k"
  shows "(m div k < n div k \<or> m div k = n div k \<and> m mod k < n mod k) \<longleftrightarrow> m < n"
proof -
  have m: "m = k * (m div k) + m mod k" and n: "n = k * (n div k) + n mod k" by simp_all
  show ?thesis
  proof (cases "m div k = n div k")
    case True
    then show ?thesis using m n by (metis nat_add_left_cancel_less less_irrefl)
  next
    case False
    have "m div k < n div k \<Longrightarrow> m < n"
      by (metis div_le_mono leD leI)
    moreover have "m < n \<Longrightarrow> m div k < n div k"
      using False by (metis div_le_mono le_neq_implies_less less_imp_le)
    ultimately show ?thesis using False by blast
  qed
qed

lemma eq_div_mod:
  fixes m n k :: nat
  shows "(m div k = n div k \<and> m mod k = n mod k) \<longleftrightarrow> m = n"
  by (metis mult_div_mod_eq)

lemma pad2_less_iff: "m < 100 \<Longrightarrow> n < 100 \<Longrightarrow> pad2 m < pad2 n \<longleftrightarrow> m < n"
proof -
  assume "m < 100" "n < 100"
  then have d: "m div 10 mod 10 = m div 10" "n div 10 mod 10 = n div 10" by simp_all
  have "pad2 m < pad2 n \<longleftrightarrow>
      (m div 10 < n div 10 \<or> m div 10 = n div 10 \<and> m mod 10 < n mod 10)"
    by (simp add: pad2_def digit_less_iff digit_eq_iff d)
  then show ?thesis using lex_div_mod [of 10 m n] by simp
qed

lemma pad2_eq_iff: "m < 100 \<Longrightarrow> n < 100 \<Longrightarrow> pad2 m = pad2 n \<longleftrightarrow> m = n"
proof -
  assume "m < 100" "n < 100"
  then have d: "m div 10 mod 10 = m div 10" "n div 10 mod 10 = n div 10" by simp_all
  have "pad2 m = pad2 n \<longleftrightarrow> (m div 10 = n div 10 \<and> m mod 10 = n mod 10)"
    by (simp add: pad2_def digit_eq_iff d)
  then show ?thesis using eq_div_mod [of m 10 n] by simp
qed

lemma length_pad2: "length (pad2 n) = 2"
  by (simp add: pad2_def)

lemma append_less_iff:
  "length a = length b \<Longrightarrow> a @ x < b @ y \<longleftrightarrow> a < b \<or> a = b \<and> x < (y :: 'a :: linorder list)"
  by (induction a b rule: list_induct2) auto


lemma pad4_less_iff: "m < 10000 \<Longrightarrow> n < 10000 \<Longrightarrow> pad4 m < pad4 n \<longleftrightarrow> m < n"
proof -
  assume "m < 10000" "n < 10000"
  then have b: "m div 100 < 100" "n div 100 < 100" "m mod 100 < 100" "n mod 100 < 100"
    by simp_all
  have "pad4 m < pad4 n \<longleftrightarrow>
      (m div 100 < n div 100 \<or> m div 100 = n div 100 \<and> m mod 100 < n mod 100)"
    by (simp add: pad4_def append_less_iff length_pad2 pad2_less_iff pad2_eq_iff b)
  then show ?thesis using lex_div_mod [of 100 m n] by simp
qed

lemma pad4_eq_iff: "m < 10000 \<Longrightarrow> n < 10000 \<Longrightarrow> pad4 m = pad4 n \<longleftrightarrow> m = n"
proof -
  assume "m < 10000" "n < 10000"
  then have b: "m div 100 < 100" "n div 100 < 100" "m mod 100 < 100" "n mod 100 < 100"
    by simp_all
  have "pad4 m = pad4 n \<longleftrightarrow> (m div 100 = n div 100 \<and> m mod 100 = n mod 100)"
    by (simp add: pad4_def length_pad2 pad2_eq_iff b)
  then show ?thesis using eq_div_mod [of m 100 n] by simp
qed

subsection \<open>The calendar of the datetime module\<close>

text \<open>
  \<open>ord2ymd\<close> inverts \<open>ymd2ord\<close> on the dates of the years 1 to 9999, so that
  subtracting an offset moves a datetime by exactly that many seconds.
\<close>

lemma div_block: "r < k \<Longrightarrow> (k * q + r) div k = (q::nat)"
  by simp

lemma mod_block: "r < k \<Longrightarrow> (k * q + r) mod k = (r::nat)"
  by simp

lemma days_before_year_cycles:
  fixes a b c e :: nat
  assumes "b \<le> 3" "c \<le> 24" "e \<le> 3"
  shows "days_before_year (400 * a + 100 * b + 4 * c + e + 1)
         = 146097 * a + 36524 * b + 1461 * c + 365 * e"
proof -
  define y1 where "y1 = 400 * a + 100 * b + 4 * c + e"
  have "y1 = 4 * (100 * a + 25 * b + c) + e" by (simp add: y1_def)
  moreover have "e < 4" using assms by simp
  ultimately have d4: "y1 div 4 = 100 * a + 25 * b + c"
    using div_block [of e 4] by simp
  have "y1 = 100 * (4 * a + b) + (4 * c + e)" by (simp add: y1_def)
  moreover have "4 * c + e < 100" using assms by simp
  ultimately have d100: "y1 div 100 = 4 * a + b"
    using div_block [of "4 * c + e" 100] by simp
  have "y1 = 400 * a + (100 * b + 4 * c + e)" by (simp add: y1_def)
  moreover have "100 * b + 4 * c + e < 400" using assms by simp
  ultimately have d400: "y1 div 400 = a"
    using div_block [of "100 * b + 4 * c + e" 400] by simp
  have "days_before_year (y1 + 1) = y1 * 365 + y1 div 4 - y1 div 100 + y1 div 400"
    by (simp add: days_before_year_def Let_def)
  also have "\<dots> = 146097 * a + 36524 * b + 1461 * c + 365 * e"
    unfolding d4 d100 d400 by (simp add: y1_def)
  finally show ?thesis by (simp add: y1_def)
qed

lemma mod_eq_0_upto: "0 < r \<Longrightarrow> r \<le> k \<Longrightarrow> r mod k = 0 \<longleftrightarrow> r = (k::nat)"
  by (cases "r = k") auto

lemma is_leap_cycles:
  fixes a b c e :: nat
  assumes "b \<le> 3" "c \<le> 24" "e \<le> 3"
  shows "is_leap (400 * a + 100 * b + 4 * c + e + 1) \<longleftrightarrow> (e = 3 \<and> (c \<noteq> 24 \<or> b = 3))"
proof -
  define y where "y = 400 * a + 100 * b + 4 * c + e + 1"
  have h4: "y = 4 * (100 * a + 25 * b + c) + (e + 1)" by (simp add: y_def)
  have m4: "y mod 4 = (e + 1) mod 4" by (simp only: h4 mod_mult_self4)
  have h100: "y = 100 * (4 * a + b) + (4 * c + e + 1)" by (simp add: y_def)
  have m100: "y mod 100 = (4 * c + e + 1) mod 100" by (simp only: h100 mod_mult_self4)
  have h400: "y = 400 * a + (100 * b + 4 * c + e + 1)" by (simp add: y_def)
  have m400: "y mod 400 = (100 * b + 4 * c + e + 1) mod 400" by (simp only: h400 mod_mult_self4)
  have a4: "e + 1 = 4 \<longleftrightarrow> e = 3" by arith
  have a100: "4 * c + e + 1 = 100 \<longleftrightarrow> c = 24 \<and> e = 3" using assms by arith
  have a400: "100 * b + 4 * c + e + 1 = 400 \<longleftrightarrow> b = 3 \<and> c = 24 \<and> e = 3"
    using assms by arith
  have e4: "y mod 4 = 0 \<longleftrightarrow> e = 3"
    unfolding m4 using assms mod_eq_0_upto [of "e + 1" 4] a4 by simp
  have e100: "y mod 100 = 0 \<longleftrightarrow> c = 24 \<and> e = 3"
    unfolding m100 using assms mod_eq_0_upto [of "4 * c + e + 1" 100] a100 by simp
  have e400: "y mod 400 = 0 \<longleftrightarrow> b = 3 \<and> c = 24 \<and> e = 3"
    unfolding m400 using assms mod_eq_0_upto [of "100 * b + 4 * c + e + 1" 400] a400 by simp
  show ?thesis
    unfolding is_leap_def y_def [symmetric] e4 e100 e400 by blast
qed


lemma month_estimate:
  fixes r :: nat
  assumes r: "r < 365"
    and Q: "\<And>mf df. 1 \<le> mf \<Longrightarrow> mf \<le> 12 \<Longrightarrow> 1 \<le> df \<Longrightarrow>
              df \<le> DAYS_IN_MONTH ! mf + (if mf = 2 \<and> L then 1 else 0) \<Longrightarrow>
              DAYS_BEFORE_MONTH ! mf + (if 2 < mf \<and> L then 1 else 0) + df = r + 1 \<Longrightarrow>
              Q (y, mf, df)"
  shows "Q (let m = (r + 50) div 32;
              preceding = DAYS_BEFORE_MONTH ! m + (if 2 < m \<and> L then 1 else 0)
          in if r < preceding
             then (let m' = m - 1;
                       preceding' = preceding - (DAYS_IN_MONTH ! m' + (if m' = 2 \<and> L then 1 else 0))
                   in (y, m', r - preceding' + 1))
             else (y, m, r - preceding + 1))"
proof -
  define m where "m = (r + 50) div 32"
  have lo: "32 * m \<le> r + 50" and hi: "r + 50 < 32 * m + 32"
    unfolding m_def by arith+
  have "1 \<le> m" "m \<le> 12" using lo hi r by arith+
  then have "m = 1 \<or> m = 2 \<or> m = 3 \<or> m = 4 \<or> m = 5 \<or> m = 6 \<or> m = 7 \<or> m = 8 \<or> m = 9
      \<or> m = 10 \<or> m = 11 \<or> m = 12" by arith
  then have "Q (let preceding = DAYS_BEFORE_MONTH ! m + (if 2 < m \<and> L then 1 else 0)
          in if r < preceding
             then (let m' = m - 1;
                       preceding' = preceding - (DAYS_IN_MONTH ! m' + (if m' = 2 \<and> L then 1 else 0))
                   in (y, m', r - preceding' + 1))
             else (y, m, r - preceding + 1))"
    using lo hi r
    by (elim disjE)
       (auto simp: DAYS_BEFORE_MONTH_def DAYS_IN_MONTH_def Let_def intro!: Q)
  then show ?thesis unfolding Let_def m_def .
qed


lemma ord2ymd_cases:
  assumes n: "1 \<le> n"
    and Q: "\<And>y m d. 1 \<le> y \<Longrightarrow> 1 \<le> m \<Longrightarrow> m \<le> 12 \<Longrightarrow> 1 \<le> d \<Longrightarrow>
              d \<le> days_in_month y m \<Longrightarrow> ymd2ord y m d = n \<Longrightarrow> Q (y, m, d)"
  shows "Q (ord2ymd n)"
proof -
  define n' where "n' = n - 1"
  define a where "a = n' div 146097"
  define r0 where "r0 = n' mod 146097"
  define b where "b = r0 div 36524"
  define r1 where "r1 = r0 mod 36524"
  define c where "c = r1 div 1461"
  define r2 where "r2 = r1 mod 1461"
  define e where "e = r2 div 365"
  define r3 where "r3 = r2 mod 365"
  define L where "L = (e = 3 \<and> (c \<noteq> 24 \<or> b = 3))"
  define Y where "Y = a * 400 + 1 + b * 100 + c * 4 + e"
  have n_eq: "n = n' + 1" using n by (simp add: n'_def)
  have d0: "n' = 146097 * a + r0" and l0: "r0 < 146097" by (simp_all add: a_def r0_def)
  have d1: "r0 = 36524 * b + r1" and l1: "r1 < 36524" by (simp_all add: b_def r1_def)
  have d2: "r1 = 1461 * c + r2" and l2: "r2 < 1461" by (simp_all add: c_def r2_def)
  have d3: "r2 = 365 * e + r3" and l3: "r3 < 365" by (simp_all add: e_def r3_def)
  have b4: "b \<le> 4" using d1 l0 by arith
  have c24: "c \<le> 24" using d2 l1 by arith
  have e4: "e \<le> 4" using d3 l2 by arith
  have unfold: "ord2ymd n =
    (if e = 4 \<or> b = 4 then (Y - 1, 12, 31)
     else (let m = (r3 + 50) div 32;
               preceding = DAYS_BEFORE_MONTH ! m + (if 2 < m \<and> L then 1 else 0)
           in if r3 < preceding
              then (let m' = m - 1;
                        preceding' = preceding - (DAYS_IN_MONTH ! m' + (if m' = 2 \<and> L then 1 else 0))
                    in (Y, m', r3 - preceding' + 1))
              else (Y, m, r3 - preceding + 1)))"
    unfolding ord2ymd_def Let_def Y_def L_def r3_def e_def r2_def c_def r1_def b_def r0_def a_def n'_def
    by (rule refl)
  have dec31: "is_leap y \<Longrightarrow> 1 \<le> y \<Longrightarrow> days_before_year y + 366 = n \<Longrightarrow> Q (y, 12, 31)" for y
    by (rule Q) (simp_all add: days_in_month_def DAYS_IN_MONTH_def ymd2ord_def days_before_month_def
        DAYS_BEFORE_MONTH_def)
  show ?thesis
  proof (cases "b = 4")
    case True
    then have "r1 = 0" using d1 l0 by arith
    then have z: "c = 0" "r2 = 0" "e = 0" "r3 = 0" using d2 d3 by simp_all
    have Y1: "Y - 1 = 400 * a + 100 * 3 + 4 * 24 + 3 + 1" using True z by (simp add: Y_def)
    have "days_before_year (Y - 1) = 146097 * a + 36524 * 3 + 1461 * 24 + 365 * 3"
      unfolding Y1 by (rule days_before_year_cycles) simp_all
    moreover have "is_leap (Y - 1)"
      unfolding Y1 using is_leap_cycles [of 3 24 3 a] by simp
    moreover have "n = 146097 * a + 146097" using n_eq d0 d1 True \<open>r1 = 0\<close> by simp
    moreover have "1 \<le> Y - 1" unfolding Y1 by simp
    ultimately have "Q (Y - 1, 12, 31)"
      by (intro dec31) simp_all
    then show ?thesis using True by (simp add: unfold)
  next
    case b3: False
    then have b3': "b \<le> 3" using b4 by simp
    show ?thesis
    proof (cases "e = 4")
      case True
      then have r3z: "r3 = 0" using d3 l2 by arith
      have c23: "c \<le> 23" using d2 d3 l1 True by arith
      have Y1: "Y - 1 = 400 * a + 100 * b + 4 * c + 3 + 1" using True by (simp add: Y_def)
      have "days_before_year (Y - 1) = 146097 * a + 36524 * b + 1461 * c + 365 * 3"
        unfolding Y1 using b3' c23 by (intro days_before_year_cycles) simp_all
      moreover have "is_leap (Y - 1)"
        unfolding Y1 using is_leap_cycles [of b c 3 a] b3' c23 by simp
      moreover have "n = 146097 * a + 36524 * b + 1461 * c + 1461"
        using n_eq d0 d1 d2 d3 True r3z by simp
      moreover have "1 \<le> Y - 1" unfolding Y1 by simp
      ultimately have "Q (Y - 1, 12, 31)"
        by (intro dec31) simp_all
      then show ?thesis using True by (simp add: unfold)
    next
      case False
      then have e3: "e \<le> 3" using e4 by simp
      have Y1: "Y = 400 * a + 100 * b + 4 * c + e + 1" by (simp add: Y_def)
      have dby: "days_before_year Y = 146097 * a + 36524 * b + 1461 * c + 365 * e"
        unfolding Y1 using b3' c24 e3 by (intro days_before_year_cycles)
      have leap: "is_leap Y = L"
        unfolding Y1 L_def using b3' c24 e3 by (intro is_leap_cycles)
      have nY: "n = days_before_year Y + r3 + 1"
        using n_eq d0 d1 d2 d3 dby by simp
      have "Q (let m = (r3 + 50) div 32;
               preceding = DAYS_BEFORE_MONTH ! m + (if 2 < m \<and> L then 1 else 0)
           in if r3 < preceding
              then (let m' = m - 1;
                        preceding' = preceding - (DAYS_IN_MONTH ! m' + (if m' = 2 \<and> L then 1 else 0))
                    in (Y, m', r3 - preceding' + 1))
              else (Y, m, r3 - preceding + 1))"
      proof (rule month_estimate [OF l3])
        fix mf df :: nat
        assume h: "1 \<le> mf" "mf \<le> 12" "1 \<le> df"
          "df \<le> DAYS_IN_MONTH ! mf + (if mf = 2 \<and> L then 1 else 0)"
          "DAYS_BEFORE_MONTH ! mf + (if 2 < mf \<and> L then 1 else 0) + df = r3 + 1"
        show "Q (Y, mf, df)"
        proof (rule Q)
          show "1 \<le> Y" by (simp add: Y_def)
          show "1 \<le> mf" "mf \<le> 12" "1 \<le> df" by (rule h)+
          show "df \<le> days_in_month Y mf"
            using h(4) by (auto simp: days_in_month_def leap DAYS_IN_MONTH_def split: if_splits)
          show "ymd2ord Y mf df = n"
            using h(5) by (simp add: ymd2ord_def days_before_month_def leap nY)
        qed
      qed
      then show ?thesis using False b3 by (simp add: unfold)
    qed
  qed
qed


lemma ymd2ord_ord2ymd:
  assumes "1 \<le> n"
  shows "(case ord2ymd n of (y, m, d) \<Rightarrow> ymd2ord y m d) = n"
  by (rule ord2ymd_cases [OF assms]) simp

lemma days_before_year_Suc:
  assumes "1 \<le> y"
  shows "days_before_year (Suc y) = days_before_year y + 365 + (if is_leap y then 1 else 0)"
proof -
  obtain k where k: "y = Suc k" using assms by (cases y) auto
  define q4 q100 q400 where "q4 = k div 4" and "q100 = k div 100" and "q400 = k div 400"
  have le: "q100 \<le> q4" unfolding q4_def q100_def by (rule div_le_mono2) simp_all
  have "Suc k mod 100 mod 4 = Suc k mod 4" by (rule mod_mod_cancel) simp
  then have m1: "Suc k mod 100 = 0 \<Longrightarrow> Suc k mod 4 = 0" by simp
  have "Suc k mod 400 mod 100 = Suc k mod 100" by (rule mod_mod_cancel) simp
  then have m2: "Suc k mod 400 = 0 \<Longrightarrow> Suc k mod 100 = 0" by simp
  have s: "Suc k div 4 = (if Suc k mod 4 = 0 then Suc q4 else q4)"
    "Suc k div 100 = (if Suc k mod 100 = 0 then Suc q100 else q100)"
    "Suc k div 400 = (if Suc k mod 400 = 0 then Suc q400 else q400)"
    by (simp_all add: div_Suc q4_def q100_def q400_def)
  have l: "days_before_year (Suc (Suc k)) = Suc k * 365 + Suc k div 4 - Suc k div 100 + Suc k div 400"
    by (simp add: days_before_year_def)
  have r: "days_before_year (Suc k) = k * 365 + q4 - q100 + q400"
    by (simp add: days_before_year_def q4_def q100_def q400_def)
  have "Suc k * 365 = k * 365 + 365" by simp
  then show ?thesis
    unfolding k l r s is_leap_def using le m1 m2
    by (cases "Suc k mod 4 = 0"; cases "Suc k mod 100 = 0"; cases "Suc k mod 400 = 0") simp_all
qed

lemma days_before_year_mono:
  assumes "1 \<le> y" "y \<le> y'"
  shows "days_before_year y \<le> days_before_year y'"
  using assms(2)
proof (induction rule: dec_induct)
  case base
  show ?case by simp
next
  case (step n)
  with assms(1) have "1 \<le> n" by simp
  from days_before_year_Suc [OF this] step show ?case by simp
qed

lemma days_before_month_Suc:
  assumes "1 \<le> m" "m < 12"
  shows "days_before_month y (Suc m) = days_before_month y m + days_in_month y m"
proof -
  from assms have "m = 1 \<or> m = 2 \<or> m = 3 \<or> m = 4 \<or> m = 5 \<or> m = 6 \<or> m = 7 \<or> m = 8 \<or> m = 9
      \<or> m = 10 \<or> m = 11" by arith
  then show ?thesis
    by (elim disjE)
       (simp_all add: days_before_month_def days_in_month_def DAYS_BEFORE_MONTH_def DAYS_IN_MONTH_def)
qed

lemma days_before_month_mono:
  assumes "1 \<le> m" "m \<le> m'" "m' \<le> 12"
  shows "days_before_month y m \<le> days_before_month y m'"
  using assms(2,3)
proof (induction rule: dec_induct)
  case base
  show ?case by simp
next
  case (step n)
  with assms(1) have "1 \<le> n" "n < 12" by simp_all
  from days_before_month_Suc [OF this, of y] step show ?case by simp
qed

lemma days_before_month_12: "days_before_month y 12 + days_in_month y 12 = 365 + (if is_leap y then 1 else 0)"
  by (simp add: days_before_month_def days_in_month_def DAYS_BEFORE_MONTH_def DAYS_IN_MONTH_def)


lemma month_end_le:
  assumes "1 \<le> m" "m \<le> 12" "d \<le> days_in_month y m"
  shows "days_before_month y m + d \<le> 365 + (if is_leap y then 1 else 0)"
proof (cases "m = 12")
  case True
  then show ?thesis using assms(3) days_before_month_12 [of y] by simp
next
  case False
  then have m: "m < 12" using assms(2) by simp
  have "days_before_month y m + d \<le> days_before_month y (Suc m)"
    using days_before_month_Suc [OF assms(1) m, of y] assms(3) by simp
  also have "\<dots> \<le> days_before_month y 12"
    using m by (intro days_before_month_mono) simp_all
  also have "\<dots> \<le> 365 + (if is_leap y then 1 else 0)"
    using days_before_month_12 [of y] by simp
  finally show ?thesis .
qed

lemma ymd2ord_less:
  assumes a: "1 \<le> y" "1 \<le> m" "m \<le> 12" "d \<le> days_in_month y m"
    and b: "1 \<le> m'" "m' \<le> 12" "1 \<le> d'"
    and lex: "y < y' \<or> y = y' \<and> (m < m' \<or> m = m' \<and> d < d')"
  shows "ymd2ord y m d < ymd2ord y' m' d'"
proof -
  consider "y < y'" | "y = y'" "m < m'" | "y = y'" "m = m'" "d < d'" using lex by blast
  then show ?thesis
  proof cases
    case 1
    have "ymd2ord y m d \<le> days_before_year y + (365 + (if is_leap y then 1 else 0))"
      unfolding ymd2ord_def using month_end_le [OF a(2,3,4)] by simp
    also have "\<dots> = days_before_year (Suc y)"
      using days_before_year_Suc [OF a(1)] by simp
    also have "\<dots> \<le> days_before_year y'"
      using 1 by (intro days_before_year_mono) simp_all
    also have "\<dots> < ymd2ord y' m' d'"
      unfolding ymd2ord_def using b(3) by simp
    finally show ?thesis .
  next
    case 2
    then have m12: "m < 12" using b(2) by simp
    have "days_before_month y m + d \<le> days_before_month y (Suc m)"
      using days_before_month_Suc [OF a(2) m12, of y] a(4) by simp
    also have "\<dots> \<le> days_before_month y m'"
      using 2 b(2) by (intro days_before_month_mono) simp_all
    finally show ?thesis unfolding ymd2ord_def using 2 b(3) by simp
  next
    case 3
    then show ?thesis unfolding ymd2ord_def by simp
  qed
qed

lemma ymd2ord_inject:
  assumes a: "1 \<le> y" "1 \<le> m" "m \<le> 12" "1 \<le> d" "d \<le> days_in_month y m"
    and b: "1 \<le> y'" "1 \<le> m'" "m' \<le> 12" "1 \<le> d'" "d' \<le> days_in_month y' m'"
    and eq: "ymd2ord y m d = ymd2ord y' m' d'"
  shows "y = y' \<and> m = m' \<and> d = d'"
proof (rule ccontr)
  assume "\<not> (y = y' \<and> m = m' \<and> d = d')"
  then have "(y < y' \<or> y = y' \<and> (m < m' \<or> m = m' \<and> d < d')) \<or>
             (y' < y \<or> y' = y \<and> (m' < m \<or> m' = m \<and> d' < d))" by auto
  then show False
  proof
    assume "y < y' \<or> y = y' \<and> (m < m' \<or> m = m' \<and> d < d')"
    from ymd2ord_less [OF a(1,2,3,5) b(2,3,4) this] eq show False by simp
  next
    assume "y' < y \<or> y' = y \<and> (m' < m \<or> m' = m \<and> d' < d)"
    from ymd2ord_less [OF b(1,2,3,5) a(2,3,4) this] eq show False by simp
  qed
qed

lemma days_before_year_10000: "days_before_year 10000 = 3652059"
  by (simp add: days_before_year_def)

lemma ymd2ord_le_MAXORDINAL:
  assumes "1 \<le> y" "y \<le> 9999" "1 \<le> m" "m \<le> 12" "d \<le> days_in_month y m"
  shows "ymd2ord y m d \<le> 3652059"
proof -
  have "ymd2ord y m d \<le> days_before_year y + (365 + (if is_leap y then 1 else 0))"
    unfolding ymd2ord_def using month_end_le [OF assms(3,4,5)] by simp
  also have "\<dots> = days_before_year (Suc y)"
    using days_before_year_Suc [OF assms(1)] by simp
  also have "\<dots> \<le> days_before_year 10000"
    using assms(2) by (intro days_before_year_mono) simp_all
  finally show ?thesis by (simp add: days_before_year_10000)
qed

lemma ord2ymd_valid:
  assumes "1 \<le> n" "n \<le> 3652059"
  shows "case ord2ymd n of (y, m, d) \<Rightarrow>
           1 \<le> y \<and> y \<le> 9999 \<and> 1 \<le> m \<and> m \<le> 12 \<and> 1 \<le> d \<and> d \<le> days_in_month y m \<and>
           ymd2ord y m d = n"
proof (rule ord2ymd_cases [OF assms(1)])
  fix y m d
  assume h: "1 \<le> y" "1 \<le> m" "m \<le> 12" "1 \<le> d" "d \<le> days_in_month y m" "ymd2ord y m d = n"
  have "y \<le> 9999"
  proof (rule ccontr)
    assume "\<not> y \<le> 9999"
    then have "days_before_year 10000 \<le> days_before_year y"
      by (intro days_before_year_mono) simp_all
    then have "3652059 < ymd2ord y m d"
      unfolding ymd2ord_def using h(4) by (simp add: days_before_year_10000)
    then show False using h(6) assms(2) by simp
  qed
  then show "case (y, m, d) of (y, m, d) \<Rightarrow>
           1 \<le> y \<and> y \<le> 9999 \<and> 1 \<le> m \<and> m \<le> 12 \<and> 1 \<le> d \<and> d \<le> days_in_month y m \<and>
           ymd2ord y m d = n"
    using h by simp
qed

lemma ord2ymd_ymd2ord:
  assumes "1 \<le> y" "y \<le> 9999" "1 \<le> m" "m \<le> 12" "1 \<le> d" "d \<le> days_in_month y m"
  shows "ord2ymd (ymd2ord y m d) = (y, m, d)"
proof -
  have n1: "1 \<le> ymd2ord y m d" unfolding ymd2ord_def using assms(5) by simp
  have n2: "ymd2ord y m d \<le> 3652059" using assms by (intro ymd2ord_le_MAXORDINAL)
  obtain y' m' d' where o: "ord2ymd (ymd2ord y m d) = (y', m', d')" by (cases "ord2ymd (ymd2ord y m d)")
  from ord2ymd_valid [OF n1 n2] o
  have v: "1 \<le> y'" "1 \<le> m'" "m' \<le> 12" "1 \<le> d'" "d' \<le> days_in_month y' m'"
    "ymd2ord y' m' d' = ymd2ord y m d" by simp_all
  from ymd2ord_inject [OF v(1-5) assms(1,3,4,5,6) v(6)] o show ?thesis by simp
qed


lemma split_seconds:
  fixes secs :: nat
  assumes "secs < 86400"
  shows "secs div 3600 < 24" "secs mod 3600 div 60 < 60" "secs mod 60 < 60"
    "secs div 3600 * 3600 + secs mod 3600 div 60 * 60 + secs mod 60 = secs"
proof -
  show "secs div 3600 < 24" using assms by simp
  show "secs mod 3600 div 60 < 60" by simp
  show "secs mod 60 < 60" by simp
  have "secs mod 3600 mod 60 = secs mod 60" by (rule mod_mod_cancel) simp
  then have "secs mod 3600 div 60 * 60 + secs mod 60 = secs mod 3600"
    by (metis div_mult_mod_eq)
  then show "secs div 3600 * 3600 + secs mod 3600 div 60 * 60 + secs mod 60 = secs"
    by (metis add.assoc div_mult_mod_eq)
qed

lemma datetime_sub_alt:
  "datetime_sub d off =
    (let total = clock_seconds d - off;
         days = total div 86400;
         secs = nat (total mod 86400)
     in if 0 < days \<and> days \<le> MAXORDINAL
        then (case ord2ymd (nat days) of (y, m, dd) \<Rightarrow>
                datetime_new y m dd (secs div 3600) (secs mod 3600 div 60) (secs mod 60) (tzinfo d))
        else Inl OverflowError)"
  by (simp add: datetime_sub_def clock_seconds_def Let_def)

lemma datetime_sub_in_range:
  assumes lo: "0 < (clock_seconds d - off) div 86400"
    and hi: "(clock_seconds d - off) div 86400 \<le> MAXORDINAL"
  shows "\<exists>u. datetime_sub d off = Inr u \<and> valid_datetime u \<and> tzinfo u = tzinfo d \<and>
             clock_seconds u = clock_seconds d - off"
proof -
  define total where "total = clock_seconds d - off"
  define days where "days = total div 86400"
  define secs where "secs = nat (total mod 86400)"
  have secs: "secs < 86400" "int secs = total mod 86400" by (simp_all add: secs_def)
  have n1: "1 \<le> nat days" and n2: "nat days \<le> 3652059"
    using lo hi by (simp_all add: days_def total_def MAXORDINAL_def)
  obtain y m dd where o: "ord2ymd (nat days) = (y, m, dd)" by (cases "ord2ymd (nat days)")
  from ord2ymd_valid [OF n1 n2] o
  have v: "1 \<le> y" "y \<le> 9999" "1 \<le> m" "m \<le> 12" "1 \<le> dd" "dd \<le> days_in_month y m"
    "ymd2ord y m dd = nat days" by simp_all
  define u where "u = \<lparr>year = y, month = m, day = dd, hour = secs div 3600,
    minute = secs mod 3600 div 60, second = secs mod 60, tzinfo = tzinfo d\<rparr>"
  have vu: "valid_datetime u"
    using v split_seconds(1-3) [OF secs(1)]
    by (simp add: valid_datetime_def u_def MINYEAR_def MAXYEAR_def)
  have "datetime_sub d off = datetime_new y m dd (secs div 3600) (secs mod 3600 div 60) (secs mod 60) (tzinfo d)"
    using lo hi o
    by (simp add: datetime_sub_def Let_def clock_seconds_def total_def days_def secs_def)
  then have eq: "datetime_sub d off = Inr u"
    using vu by (simp add: datetime_new_def Let_def u_def)
  have "clock_seconds u = int (nat days) * 86400 + int (secs div 3600 * 3600 + secs mod 3600 div 60 * 60 + secs mod 60)"
    by (simp add: clock_seconds_def u_def toordinal_def v(7))
  also have "\<dots> = days * 86400 + total mod 86400"
    using split_seconds(4) [OF secs(1)] secs(2) n1 by simp
  also have "\<dots> = total" by (simp add: days_def)
  finally have "clock_seconds u = clock_seconds d - off" by (simp add: total_def)
  with eq vu show ?thesis by (auto simp: u_def)
qed

lemma datetime_sub_out_of_range:
  assumes "\<not> (0 < (clock_seconds d - off) div 86400 \<and> (clock_seconds d - off) div 86400 \<le> MAXORDINAL)"
  shows "datetime_sub d off = Inl OverflowError"
  using assms by (auto simp: datetime_sub_def Let_def clock_seconds_def)

lemma datetime_sub_zero:
  assumes "valid_datetime d"
  shows "datetime_sub d 0 = Inr d"
proof -
  from assms have v: "1 \<le> year d" "year d \<le> 9999" "1 \<le> month d" "month d \<le> 12" "1 \<le> day d"
    "day d \<le> days_in_month (year d) (month d)" "hour d < 24" "minute d < 60" "second d < 60"
    by (simp_all add: valid_datetime_def MINYEAR_def MAXYEAR_def)
  define secs where "secs = hour d * 3600 + minute d * 60 + second d"
  have s: "secs < 86400" using v by (simp add: secs_def)
  have total: "clock_seconds d - 0 = int (toordinal d) * 86400 + int secs"
    by (simp add: clock_seconds_def secs_def)
  have dv: "(int (toordinal d) * 86400 + int secs) div 86400 = int (toordinal d)"
    using s by simp
  have md: "(int (toordinal d) * 86400 + int secs) mod 86400 = int secs"
    using s by simp
  have o1: "1 \<le> toordinal d" unfolding toordinal_def ymd2ord_def using v(5) by simp
  have o2: "toordinal d \<le> 3652059"
    unfolding toordinal_def using v by (intro ymd2ord_le_MAXORDINAL)
  have o: "ord2ymd (toordinal d) = (year d, month d, day d)"
    unfolding toordinal_def using v by (intro ord2ymd_ymd2ord)
  have r: "minute d * 60 + second d < 3600" using v by simp
  have secs': "secs = 3600 * hour d + (minute d * 60 + second d)" by (simp add: secs_def)
  have h: "secs div 3600 = hour d" unfolding secs' using r by (rule div_block)
  have m3600: "secs mod 3600 = minute d * 60 + second d" unfolding secs' using r by (rule mod_block)
  have "minute d * 60 + second d = 60 * minute d + second d" by simp
  then have mi: "secs mod 3600 div 60 = minute d"
    unfolding m3600 using div_block [of "second d" 60 "minute d"] v(9) by simp
  have "secs mod 3600 mod 60 = secs mod 60" by (rule mod_mod_cancel) simp
  then have se: "secs mod 60 = second d"
    unfolding m3600 using mod_block [of "second d" 60 "minute d"] v(9) by (simp add: mult.commute)
  have "datetime_sub d 0 = datetime_new (year d) (month d) (day d) (hour d) (minute d) (second d) (tzinfo d)"
    unfolding datetime_sub_alt Let_def total dv md
    using o1 o2 by (simp add: o h mi se MAXORDINAL_def)
  moreover have "\<lparr>year = year d, month = month d, day = day d, hour = hour d,
      minute = minute d, second = second d, tzinfo = tzinfo d\<rparr> = d"
    by (cases d) simp
  ultimately show ?thesis using assms by (simp add: datetime_new_def Let_def)
qed

subsection \<open>Examples\<close>

lemma due_utc_str: "strftime due_utc = ''2024-10-10T16:00Z''"
  by (simp add: due_utc_def due_naive_def strftime_def year_str_def pad4_def pad2_def digit_def)

lemma ymd2ord_example: "ymd2ord 2024 10 10 = 739169"
  by (simp add: ymd2ord_def days_before_year_def days_before_month_def DAYS_BEFORE_MONTH_def is_leap_def)

lemma ord2ymd_example: "ord2ymd 739169 = (2024, 10, 10)"
  by (simp add: ord2ymd_def Let_def DAYS_BEFORE_MONTH_def DAYS_IN_MONTH_def)

lemma datetime_sub_new_york:
  "datetime_sub due_new_york (- 14400) = Inr (due_new_york\<lparr>hour := 20\<rparr>)"
  by (simp add: datetime_sub_def toordinal_def due_new_york_def due_naive_def ymd2ord_example
      ord2ymd_example Let_def MAXORDINAL_def datetime_new_def valid_datetime_def
      MINYEAR_def MAXYEAR_def days_in_month_def DAYS_IN_MONTH_def)

lemma due_date_str_new_york: "due_date_str (Some due_new_york) = Inr ''2024-10-10T20:00Z''"
proof -
  have "tzinfo due_new_york = Some (ZoneInfo ''America/New_York'' (- 14400))"
    by (simp add: due_new_york_def)
  moreover have "strftime (due_new_york\<lparr>hour := 20, tzinfo := Some ZoneInfo_UTC\<rparr>) = ''2024-10-10T20:00Z''"
    by (simp add: due_new_york_def due_naive_def strftime_def year_str_def pad4_def pad2_def
        digit_def)
  ultimately show ?thesis
    by (simp add: due_date_str_def astimezone_utc_def datetime_sub_new_york)
qed

lemma datetime_sub_year_one: "datetime_sub due_year_one 33539 = Inl OverflowError"
proof -
  have t: "toordinal due_year_one = 1"
    by (simp add: toordinal_def due_year_one_def ymd2ord_def days_before_year_def
        days_before_month_def DAYS_BEFORE_MONTH_def is_leap_def)
  have f: "hour due_year_one = 0" "minute due_year_one = 0" "second due_year_one = 0"
    by (simp_all add: due_year_one_def)
  show ?thesis
    by (simp add: datetime_sub_def t f Let_def MAXORDINAL_def)
qed

lemma due_date_str_year_one: "due_date_str (Some due_year_one) = Inl OverflowError"
proof -
  have "tzinfo due_year_one = Some (ZoneInfo ''Asia/Tokyo'' 33539)"
    by (simp add: due_year_one_def)
  then show ?thesis
    by (simp add: due_date_str_def astimezone_utc_def datetime_sub_year_one)
qed

lemma valid_due_naive: "valid_datetime due_naive"
  by (simp add: valid_datetime_def due_naive_def MINYEAR_def MAXYEAR_def days_in_month_def DAYS_IN_MONTH_def)

section \<open>Conversion to UTC\<close>

lemma astimezone_utc_cases:
  "astimezone_utc d tz = Inl OverflowError \<or>
   (\<exists>u. astimezone_utc d tz = Inr u \<and> valid_datetime u \<and> tzinfo u = Some ZoneInfo_UTC \<and>
        clock_seconds u = clock_seconds d - utcoffset tz)"
proof (cases "0 < (clock_seconds d - utcoffset tz) div 86400 \<and>
              (clock_seconds d - utcoffset tz) div 86400 \<le> MAXORDINAL")
  case True
  then obtain u where u: "datetime_sub d (utcoffset tz) = Inr u" "valid_datetime u"
      "clock_seconds u = clock_seconds d - utcoffset tz"
    using datetime_sub_in_range [of d "utcoffset tz"] by blast
  have "valid_datetime (u\<lparr>tzinfo := Some ZoneInfo_UTC\<rparr>)"
    using u(2) by (simp add: valid_datetime_def)
  moreover have "clock_seconds (u\<lparr>tzinfo := Some ZoneInfo_UTC\<rparr>) = clock_seconds u"
    by (simp add: clock_seconds_def toordinal_def)
  ultimately show ?thesis using u by (simp add: astimezone_utc_def)
next
  case False
  then show ?thesis
    using datetime_sub_out_of_range [of d "utcoffset tz"] by (simp add: astimezone_utc_def)
qed

lemma astimezone_utc_of_utc:
  assumes "valid_datetime d" "tzinfo d = Some ZoneInfo_UTC"
  shows "astimezone_utc d ZoneInfo_UTC = Inr d"
  using assms datetime_sub_zero [of d] by (simp add: astimezone_utc_def)

lemma due_date_str_aware:
  assumes "valid_datetime d" "tzinfo d = Some tz"
  shows "due_date_str (Some d) =
           (case astimezone_utc d tz of Inl e \<Rightarrow> Inl e | Inr u \<Rightarrow> Inr (strftime u))"
proof (cases "tz = ZoneInfo_UTC")
  case True
  then show ?thesis
    using assms astimezone_utc_of_utc [of d] by (simp add: due_date_str_def)
next
  case False
  then show ?thesis using assms by (simp add: due_date_str_def)
qed

section \<open>The order of the due date strings\<close>

lemma length_pad4: "length (pad4 n) = 4"
  by (simp add: pad4_def pad2_def)

lemma toordinal_less_iff:
  assumes "valid_datetime a" "valid_datetime b"
  shows "toordinal a < toordinal b \<longleftrightarrow>
    (year a < year b \<or> year a = year b \<and> (month a < month b \<or> month a = month b \<and> day a < day b))"
    (is "?l \<longleftrightarrow> ?r")
proof
  assume ?r
  then show ?l
    unfolding toordinal_def using assms
    by (intro ymd2ord_less) (simp_all add: valid_datetime_def MINYEAR_def)
next
  assume l: ?l
  show ?r
  proof (rule ccontr)
    assume n: "\<not> ?r"
    show False
    proof (cases "year a = year b \<and> month a = month b \<and> day a = day b")
      case True
      then show False using l by (simp add: toordinal_def)
    next
      case False
      with n have "year b < year a \<or> year b = year a \<and>
          (month b < month a \<or> month b = month a \<and> day b < day a)" by auto
      then have "toordinal b < toordinal a"
        unfolding toordinal_def using assms
        by (intro ymd2ord_less) (simp_all add: valid_datetime_def MINYEAR_def)
      then show False using l by simp
    qed
  qed
qed

lemma toordinal_eq_iff:
  assumes "valid_datetime a" "valid_datetime b"
  shows "toordinal a = toordinal b \<longleftrightarrow> year a = year b \<and> month a = month b \<and> day a = day b"
proof
  assume "toordinal a = toordinal b"
  then have "ymd2ord (year a) (month a) (day a) = ymd2ord (year b) (month b) (day b)"
    by (simp add: toordinal_def)
  then show "year a = year b \<and> month a = month b \<and> day a = day b"
    using assms by (intro ymd2ord_inject) (simp_all add: valid_datetime_def MINYEAR_def)
next
  assume "year a = year b \<and> month a = month b \<and> day a = day b"
  then show "toordinal a = toordinal b" by (simp add: toordinal_def)
qed

lemma lex_block:
  fixes q q' r r' k :: nat
  assumes "r < k" "r' < k"
  shows "k * q + r < k * q' + r' \<longleftrightarrow> q < q' \<or> q = q' \<and> r < r'"
proof -
  have "0 < k" using assms by simp
  from lex_div_mod [OF this, of "k * q + r" "k * q' + r'"] assms show ?thesis by simp
qed

lemma lex_minutes:
  fixes oa ob ha hb ma mb :: nat
  assumes "ha < 24" "hb < 24" "ma < 60" "mb < 60"
  shows "(oa * 24 + ha) * 60 + ma < (ob * 24 + hb) * 60 + mb \<longleftrightarrow>
         oa < ob \<or> oa = ob \<and> (ha < hb \<or> ha = hb \<and> ma < mb)"
proof -
  have "(oa * 24 + ha) * 60 + ma < (ob * 24 + hb) * 60 + mb \<longleftrightarrow>
        60 * (24 * oa + ha) + ma < 60 * (24 * ob + hb) + mb"
    by (simp add: mult.commute)
  also have "\<dots> \<longleftrightarrow> 24 * oa + ha < 24 * ob + hb \<or> 24 * oa + ha = 24 * ob + hb \<and> ma < mb"
    using assms(3,4) by (rule lex_block)
  also have "24 * oa + ha < 24 * ob + hb \<longleftrightarrow> oa < ob \<or> oa = ob \<and> ha < hb"
    using assms(1,2) by (rule lex_block)
  also have "24 * oa + ha = 24 * ob + hb \<longleftrightarrow> oa = ob \<and> ha = hb"
    using eq_div_mod [of "24 * oa + ha" 24 "24 * ob + hb"] assms(1,2) by simp
  finally show ?thesis by blast
qed

lemma chrono_less_iff_minutes:
  assumes "valid_datetime a" "valid_datetime b"
  shows "chrono_less a b \<longleftrightarrow> utc_minutes a < utc_minutes b"
proof -
  have h: "hour a < 24" "hour b < 24" "minute a < 60" "minute b < 60"
    using assms by (simp_all add: valid_datetime_def)
  show ?thesis
    unfolding utc_minutes_def lex_minutes [OF h] toordinal_less_iff [OF assms]
      toordinal_eq_iff [OF assms] chrono_less_def
    by blast
qed

lemma strftime_less_iff:
  assumes "valid_datetime a" "valid_datetime b" "1000 \<le> year a" "1000 \<le> year b"
  shows "strftime a < strftime b \<longleftrightarrow> chrono_less a b"
proof -
  have b: "year a < 10000" "year b < 10000" "month a < 100" "month b < 100"
    "day a < 100" "day b < 100" "hour a < 100" "hour b < 100" "minute a < 100" "minute b < 100"
    using assms(1,2)
    by (auto simp: valid_datetime_def MAXYEAR_def days_in_month_def DAYS_IN_MONTH_def
        nth_Cons' split: if_splits)
  show ?thesis
    by (simp add: strftime_def year_str_four assms(3,4) chrono_less_def append_less_iff
        length_pad4 length_pad2 pad4_less_iff pad4_eq_iff pad2_less_iff pad2_eq_iff b)
qed

section \<open>Listing\<close>

lemma mset_py_sort: "mset (py_sort key reverse xs) = mset xs"
  by (simp add: py_sort_def)

lemma filter_py_sort: "filter P (py_sort key reverse xs) = py_sort key reverse (filter P xs)"
proof (cases reverse)
  case True
  have "filter P (rev (sort_key key (rev xs))) = rev (filter P (sort_key key (rev xs)))"
    by (simp only: rev_filter)
  also have "\<dots> = rev (sort_key key (filter P (rev xs)))"
    by (simp only: filter_sort)
  also have "\<dots> = rev (sort_key key (rev (filter P xs)))"
    by (simp only: rev_filter)
  finally show ?thesis using True by (simp only: py_sort_def if_True)
next
  case False
  then show ?thesis by (simp add: py_sort_def filter_sort)
qed

lemma mset_sort_items: "mset (sort_items sort_by reverse xs) = mset xs"
  by (simp add: sort_items_def mset_py_sort)

lemma filter_sort_items:
  "filter P (sort_items sort_by reverse xs) = sort_items sort_by reverse (filter P xs)"
  by (simp add: sort_items_def filter_py_sort)

lemma set_sort_items: "set (sort_items sort_by reverse xs) = set xs"
  using mset_sort_items [of sort_by reverse xs] by (metis set_mset_mset)

lemma length_sort_items: "length (sort_items sort_by reverse xs) = length xs"
  using mset_sort_items [of sort_by reverse xs] by (metis size_mset)

lemma lower_asc_desc: "lower ''asc'' = ''asc''" "lower ''desc'' = ''desc''"
  by (simp_all add: lower_def lower_char_def)

text \<open>What \<^verbatim>\<open>list\<close> returns for a store and valid arguments: the stored items, sorted.\<close>

lemma TodoApp_list_store:
  assumes "store self" "valid_sort sort_by sort_order"
  shows "TodoApp_list self sort_by sort_order
         = Inr (sort_items sort_by (sort_order = ''desc'') (stored_items self))"
proof (cases "db_type self = ''json''")
  case True
  then show ?thesis using assms(2) by (simp add: TodoApp_list_def valid_sort_def stored_items_def)
next
  case False
  then have s: "db_type self = ''sqlite3''" "execute_error (conn self) = None"
    using assms(1) by (simp_all add: store_def)
  then obtain k where k: "conn self = Some k" by (auto simp: execute_error_def split: option.splits)
  have "sort_order = ''asc'' \<or> sort_order = ''desc''" using assms(2) by (simp add: valid_sort_def)
  then have o: "(lower sort_order = ''desc'') = (sort_order = ''desc'')"
    by (auto simp: lower_asc_desc)
  show ?thesis
    using assms(2) False s k o
    by (simp add: TodoApp_list_def valid_sort_def stored_items_def Let_def order_by_def)
qed

lemma json_example_list:
  "TodoApp_list json_app ''due_date'' ''asc'' =
     Inr [materialise (test_data_json ! 1), materialise (test_data_json ! 2),
          materialise (test_data_json ! 0), materialise (test_data_json ! 3)]"
  by (simp add: TodoApp_list_def json_app_def test_data_json_def sort_items_def py_sort_def
      materialise_def)

lemma sqlite_example_list:
  "TodoApp_list sqlite_app ''due_date'' ''asc'' =
     Inr [materialise (test_data_json ! 1), materialise (test_data_json ! 2),
          materialise (test_data_json ! 0), materialise (test_data_json ! 3)]"
  by (simp add: TodoApp_list_def sqlite_app_def test_data_rows_def test_data_json_def
      sort_items_def py_sort_def materialise_def order_by_def execute_error_def lower_asc_desc)

lemma store_examples: "store json_app" "store sqlite_app"
  by (simp_all add: store_def json_app_def sqlite_app_def test_data_json_def execute_error_def)

lemma sorted_empty_first:
  fixes ks :: "string list"
  assumes "sorted ks" "i < j" "j < length ks" "ks ! j = []"
  shows "ks ! i = []"
proof -
  have "i \<le> j" using assms(2) by simp
  with assms(1) have "ks ! i \<le> ks ! j" using assms(3) by (rule sorted_nth_mono)
  then show ?thesis using assms(4) by simp
qed

text \<open>
  \<^verbatim>\<open>list\<close> sorted by \<^verbatim>\<open>due_date\<close> ascending returns the stored items in the
  lexicographic order of their due date strings, the items without a due date first.
\<close>

lemma list_by_due_date_sorted:
  assumes "store self"
  shows "\<exists>xs. TodoApp_list self ''due_date'' ''asc'' = Inr xs \<and>
          sorted (map due_date xs) \<and> mset xs = mset (stored_items self) \<and>
          (\<forall>i j. i < j \<and> j < length xs \<and> due_date (xs ! j) = '''' \<longrightarrow>
                 due_date (xs ! i) = '''')"
proof -
  have v: "valid_sort ''due_date'' ''asc''" by (simp add: valid_sort_def)
  define xs where "xs = sort_items ''due_date'' False (stored_items self)"
  have l: "TodoApp_list self ''due_date'' ''asc'' = Inr xs"
    using TodoApp_list_store [OF assms v] by (simp add: xs_def)
  have s: "sorted (map due_date xs)"
    by (simp add: xs_def sort_items_def py_sort_def)
  have m: "mset xs = mset (stored_items self)"
    by (simp add: xs_def mset_sort_items)
  have e: "due_date (xs ! i) = ''''" if "i < j" "j < length xs" "due_date (xs ! j) = ''''" for i j
    using sorted_empty_first [OF s, of i j] that by simp
  show ?thesis using l s m e by blast
qed

text \<open>
  On the strings printed for years of four digits the lexicographic order is the order
  of the minutes denoted.
\<close>

lemma strftime_less_iff_minutes:
  assumes "valid_datetime a" "valid_datetime b" "1000 \<le> year a" "1000 \<le> year b"
  shows "strftime a < strftime b \<longleftrightarrow> utc_minutes a < utc_minutes b"
  by (simp only: strftime_less_iff [OF assms] chrono_less_iff_minutes [OF assms(1,2)])

section \<open>Marking an item done\<close>

subsection \<open>Looking names up\<close>

lemma name_materialise [simp]: "name (materialise kv) = fst kv"
  by (simp add: materialise_def)

lemma has_item_json:
  "db_type self = ''json'' \<Longrightarrow> has_item self nm \<longleftrightarrow> nm \<in> fst ` set (todos self)"
  by (auto simp: has_item_def stored_items_def image_iff)

lemma has_item_json_map_of:
  "db_type self = ''json'' \<Longrightarrow> has_item self nm \<longleftrightarrow> map_of (todos self) nm \<noteq> None"
  by (simp add: has_item_json map_of_eq_None_iff)

lemma store_sqlite:
  assumes "store self" "db_type self \<noteq> ''json''"
  obtains k where "db_type self = ''sqlite3''" "conn self = Some k" "execute_error (conn self) = None"
  using assms by (auto simp: store_def execute_error_def split: option.splits)

lemma find_name_None: "find (\<lambda>r. name r = nm) t = None \<longleftrightarrow> nm \<notin> name ` set t"
  by (auto simp: find_None_iff)

lemma has_item_sqlite:
  "db_type self \<noteq> ''json'' \<Longrightarrow> conn self = Some k \<Longrightarrow>
     has_item self nm \<longleftrightarrow> find (\<lambda>r. name r = nm) (rows k) \<noteq> None"
  by (simp add: has_item_def stored_items_def find_name_None)

lemma truthy_iff: "truthy x \<longleftrightarrow> x \<noteq> None"
  by (cases x) simp_all

text \<open>
  C4. For a store of either backend and a name that no item has, \<^verbatim>\<open>done\<close> raises
  \<^verbatim>\<open>KeyError\<close> and leaves the whole state of the application as it was.
\<close>

theorem done_missing_name_fails:
  assumes "store self" "\<not> has_item self nm"
  shows "TodoApp_done self nm =
           (Some (KeyError ''A Todo item with the requested name does not exist''), self)"
proof (cases "db_type self = ''json''")
  case True
  then show ?thesis
    using assms(2) by (simp add: TodoApp_done_def has_item_json_map_of)
next
  case False
  from assms(1) False obtain k where k: "db_type self = ''sqlite3''" "conn self = Some k"
      "execute_error (conn self) = None"
    by (rule store_sqlite)
  have "find (\<lambda>r. name r = nm) (rows k) = None"
    using assms(2) has_item_sqlite [OF False k(2)] by simp
  then show ?thesis
    using k by (simp add: TodoApp_done_def Let_def)
qed

theorem done_missing_name_fails_witness:
  "store json_app \<and> \<not> has_item json_app ''Todo 5'' \<and>
   TodoApp_done json_app ''Todo 5'' =
     (Some (KeyError ''A Todo item with the requested name does not exist''), json_app) \<and>
   store sqlite_app \<and> \<not> has_item sqlite_app ''Todo 5'' \<and>
   TodoApp_done sqlite_app ''Todo 5'' =
     (Some (KeyError ''A Todo item with the requested name does not exist''), sqlite_app)"
proof -
  have j: "\<not> has_item json_app ''Todo 5''"
    by (simp add: has_item_def stored_items_def json_app_def test_data_json_def)
  have s: "\<not> has_item sqlite_app ''Todo 5''"
    by (simp add: has_item_def stored_items_def sqlite_app_def test_data_rows_def
        test_data_json_def)
  from done_missing_name_fails [OF store_examples(1) j]
    done_missing_name_fails [OF store_examples(2) s] j s store_examples
  show ?thesis by (intro conjI)
qed

subsection \<open>Marking done\<close>

lemma update_existing:
  assumes "distinct (map fst al)" "map_of al k = Some v"
  shows "AList.update k v' al = map (\<lambda>p. if fst p = k then (k, v') else p) al"
  using assms
proof (induction al)
  case Nil
  then show ?case by simp
next
  case (Cons p al)
  show ?case
  proof (cases "fst p = k")
    case True
    then have "k \<notin> fst ` set al" using Cons.prems(1) by auto
    then have "map (\<lambda>p. if fst p = k then (k, v') else p) al = al"
      by (induction al) auto
    then show ?thesis using True by (cases p) simp
  next
    case False
    then show ?thesis using Cons by (cases p) auto
  qed
qed

lemma materialise_done:
  "materialise (k, r\<lparr>rec_done := Some True\<rparr>) = (materialise (k, r))\<lparr>done := True\<rparr>"
  by (simp add: materialise_def)

lemma json_done_items:
  assumes "distinct (map fst al)" "map_of al nm = Some r"
  shows "map materialise (AList.update nm (r\<lparr>rec_done := Some True\<rparr>) al)
         = map (\<lambda>x. if name x = nm then x\<lparr>done := True\<rparr> else x) (map materialise al)"
proof -
  have "\<And>p. p \<in> set al \<Longrightarrow> fst p = nm \<Longrightarrow> snd p = r"
    using assms by (metis map_of_is_SomeI option.inject prod.collapse)
  then show ?thesis
    unfolding update_existing [OF assms]
    by (auto simp: materialise_def)
qed

lemma done_twice_rows:
  "map (\<lambda>r. if name r = nm then r\<lparr>done := True\<rparr> else r)
     (map (\<lambda>r. if name r = nm then r\<lparr>done := True\<rparr> else r) t)
   = map (\<lambda>r. if name r = nm then r\<lparr>done := True\<rparr> else r) t"
  by (induction t) auto

lemma find_done_rows:
  "find (\<lambda>r. name r = nm) (map (\<lambda>r. if name r = nm then r\<lparr>done := True\<rparr> else r) t) = None
   \<longleftrightarrow> find (\<lambda>r. name r = nm) t = None"
  by (induction t) auto

lemma done_set_all:
  assumes "x \<in> set (map (\<lambda>x. if name x = nm then x\<lparr>done := True\<rparr> else x) xs)" "name x = nm"
  shows "done x"
proof -
  from assms(1) obtain y where y: "y \<in> set xs" "x = (if name y = nm then y\<lparr>done := True\<rparr> else y)"
    by (auto simp only: set_map image_iff)
  show ?thesis
  proof (cases "name y = nm")
    case True
    then show ?thesis using y(2) by simp
  next
    case False
    then show ?thesis using y(2) assms(2) by simp
  qed
qed



text \<open>
  C5. For a store of either backend and the name of an existing item, \<^verbatim>\<open>done\<close> raises
  nothing; afterwards the items are the ones stored before, in the same order, with
  \<^verbatim>\<open>done\<close> set to true in the items of that name and nothing else changed; a second call
  raises nothing either and leaves exactly the state of the first.
\<close>

theorem done_existing_is_idempotent:
  assumes "store self" "has_item self nm"
  shows "case TodoApp_done self nm of
           (e1, s1) \<Rightarrow>
             e1 = None \<and> store s1 \<and> has_item s1 nm \<and>
             stored_items s1
               = map (\<lambda>x. if name x = nm then x\<lparr>done := True\<rparr> else x) (stored_items self) \<and>
             (\<forall>x \<in> set (stored_items s1). name x = nm \<longrightarrow> done x) \<and>
             TodoApp_done s1 nm = (None, s1)"
proof (cases "db_type self = ''json''")
  case True
  from assms(2) True obtain r where r: "map_of (todos self) nm = Some r"
    by (auto simp: has_item_json_map_of)
  have d: "distinct (map fst (todos self))" using assms(1) True by (simp add: store_def)
  define r' where "r' = r\<lparr>rec_done := Some True\<rparr>"
  define s1 where "s1 = self\<lparr>todos := AList.update nm r' (todos self)\<rparr>"
  have res: "TodoApp_done self nm = (None, s1)"
    using True r by (simp add: TodoApp_done_def s1_def r'_def)
  have t1: "db_type s1 = ''json''" using True by (simp add: s1_def)
  have st: "store s1"
    using d t1 by (simp add: store_def s1_def distinct_update)
  have m1: "map_of (todos s1) nm = Some r'"
    by (simp add: s1_def update_conv')
  have hi: "has_item s1 nm" using t1 m1 by (simp add: has_item_json_map_of)
  have items: "stored_items s1
      = map (\<lambda>x. if name x = nm then x\<lparr>done := True\<rparr> else x) (stored_items self)"
    using True t1 json_done_items [OF d r]
    by (simp add: stored_items_def s1_def r'_def)
  have all: "\<forall>x \<in> set (stored_items s1). name x = nm \<longrightarrow> done x"
    unfolding items using done_set_all by blast
  have "r'\<lparr>rec_done := Some True\<rparr> = r'" by (simp add: r'_def)
  then have again: "TodoApp_done s1 nm = (None, s1)"
    using t1 m1 by (simp add: TodoApp_done_def s1_def)
  show ?thesis unfolding res prod.case
    by (intro conjI refl st hi items all again)
next
  case False
  from assms(1) False obtain k where k: "db_type self = ''sqlite3''" "conn self = Some k"
      "execute_error (conn self) = None"
    by (rule store_sqlite)
  let ?f = "map (\<lambda>r. if name r = nm then r\<lparr>done := True\<rparr> else r)"
  define k1 where "k1 = execute_dml ?f k"
  define s1 where "s1 = self\<lparr>conn := Some k1\<rparr>"
  from assms(2) obtain r0 where r0: "find (\<lambda>r. name r = nm) (rows k) = Some r0"
    using has_item_sqlite [OF False k(2)] by auto
  have res: "TodoApp_done self nm = (None, s1)"
    using k r0 by (simp add: TodoApp_done_def Let_def s1_def k1_def)
  have t1: "db_type s1 = ''sqlite3''" "conn s1 = Some k1" using k by (simp_all add: s1_def)
  have e1: "execute_error (conn s1) = None"
    using k(2,3) by (simp add: s1_def k1_def execute_error_def execute_dml_def split: if_splits)
  have st: "store s1" using t1 e1 by (simp add: store_def)
  have items: "stored_items s1 = ?f (stored_items self)"
    using False k t1 by (simp add: stored_items_def k1_def execute_dml_def)
  have all: "\<forall>x \<in> set (stored_items s1). name x = nm \<longrightarrow> done x"
    unfolding items using done_set_all by blast
  have "find (\<lambda>r. name r = nm) (rows k1) \<noteq> None"
    using r0 find_done_rows [of nm "rows k"] by (simp add: k1_def execute_dml_def)
  then obtain r1 where r1: "find (\<lambda>r. name r = nm) (rows k1) = Some r1" by auto
  have hi: "has_item s1 nm"
    using has_item_sqlite [of s1 k1 nm] t1 r1 by simp
  have "execute_dml ?f k1 = k1"
    by (simp add: k1_def execute_dml_def done_twice_rows)
  then have again: "TodoApp_done s1 nm = (None, s1)"
    using t1 e1 r1 by (simp add: TodoApp_done_def Let_def s1_def)
  show ?thesis unfolding res prod.case
    by (intro conjI refl st hi items all again)
qed

section \<open>Removing an item\<close>

lemma has_item_examples:
  "has_item json_app ''Todo 4''" "has_item sqlite_app ''Todo 4''"
  "\<not> has_item json_app ''Todo 5''" "\<not> has_item sqlite_app ''Todo 5''"
  by (simp_all add: has_item_def stored_items_def json_app_def sqlite_app_def test_data_rows_def
      test_data_json_def)

theorem done_existing_is_idempotent_witness:
  "store sqlite_app \<and> has_item sqlite_app ''Todo 4'' \<and>
   fst (TodoApp_done sqlite_app ''Todo 4'') = None \<and>
   map done (stored_items (snd (TodoApp_done sqlite_app ''Todo 4''))) = [False, True, False, True] \<and>
   TodoApp_done (snd (TodoApp_done sqlite_app ''Todo 4'')) ''Todo 4''
     = (None, snd (TodoApp_done sqlite_app ''Todo 4''))"
proof -
  obtain e1 s1 where r: "TodoApp_done sqlite_app ''Todo 4'' = (e1, s1)"
    by (cases "TodoApp_done sqlite_app ''Todo 4''")
  from done_existing_is_idempotent [OF store_examples(2) has_item_examples(2)] r
  have t: "e1 = None"
    "stored_items s1 = map (\<lambda>x. if name x = ''Todo 4'' then x\<lparr>done := True\<rparr> else x)
                          (stored_items sqlite_app)"
    "TodoApp_done s1 ''Todo 4'' = (None, s1)"
    by simp_all
  have "map done (stored_items s1) = [False, True, False, True]"
    unfolding t(2)
    by (simp add: stored_items_def sqlite_app_def test_data_rows_def test_data_json_def
        materialise_def)
  with t store_examples(2) has_item_examples(2) show ?thesis by (simp add: r)
qed

lemma materialise_delete:
  "map materialise (AList.delete nm al) = filter (\<lambda>x. name x \<noteq> nm) (map materialise al)"
  by (induction al) (auto simp: AList.delete_eq)

lemma filter_out_one:
  assumes "distinct (map f xs)" "k \<in> f ` set xs"
  shows "length (filter (\<lambda>x. f x \<noteq> k) xs) + 1 = length xs"
  using assms
proof (induction xs)
  case Nil
  then show ?case by simp
next
  case (Cons x xs)
  show ?case
  proof (cases "f x = k")
    case True
    then have "k \<notin> f ` set xs" using Cons.prems(1) by auto
    then have "filter (\<lambda>x. f x \<noteq> k) xs = xs" by (induction xs) auto
    then show ?thesis using True by simp
  next
    case False
    then have "k \<in> f ` set xs" using Cons.prems(2) by auto
    then show ?thesis using Cons False by simp
  qed
qed

lemma filter_absent:
  assumes "k \<notin> f ` set xs"
  shows "filter (\<lambda>x. f x \<noteq> k) xs = xs"
  using assms by (induction xs) auto

text \<open>
  C9. \<^verbatim>\<open>remove\<close> on a store. With the JSON backend a name that no item has raises
  \<^verbatim>\<open>KeyError(name)\<close> and changes nothing. With the SQLite backend the call raises
  nothing for any name, and for a name that no item has the items stay as they are. For
  the name of an existing item both backends raise nothing and keep exactly the items of
  the other names, in their order; when the names of the store are distinct this removes
  one item.
\<close>

theorem remove_differs_by_backend:
  assumes "store self"
  shows "(db_type self = ''json'' \<and> \<not> has_item self nm \<longrightarrow>
            TodoApp_remove self nm = (Some (KeyError nm), self)) \<and>
         (db_type self = ''sqlite3'' \<longrightarrow> fst (TodoApp_remove self nm) = None) \<and>
         (db_type self = ''sqlite3'' \<and> \<not> has_item self nm \<longrightarrow>
            stored_items (snd (TodoApp_remove self nm)) = stored_items self) \<and>
         (has_item self nm \<longrightarrow>
            (case TodoApp_remove self nm of
               (e, s') \<Rightarrow>
                 e = None \<and> store s' \<and> \<not> has_item s' nm \<and>
                 stored_items s' = filter (\<lambda>x. name x \<noteq> nm) (stored_items self) \<and>
                 (distinct (map name (stored_items self)) \<longrightarrow>
                    length (stored_items s') + 1 = length (stored_items self))))"
proof (cases "db_type self = ''json''")
  case True
  have d: "distinct (map fst (todos self))" using assms True by (simp add: store_def)
  have absent: "TodoApp_remove self nm = (Some (KeyError nm), self)" if "\<not> has_item self nm"
    using that True by (simp add: TodoApp_remove_def has_item_json_map_of)
  have present: "case TodoApp_remove self nm of
               (e, s') \<Rightarrow>
                 e = None \<and> store s' \<and> \<not> has_item s' nm \<and>
                 stored_items s' = filter (\<lambda>x. name x \<noteq> nm) (stored_items self) \<and>
                 (distinct (map name (stored_items self)) \<longrightarrow>
                    length (stored_items s') + 1 = length (stored_items self))"
    if h: "has_item self nm"
  proof -
    from h True obtain r where r: "map_of (todos self) nm = Some r"
      by (auto simp: has_item_json_map_of)
    define s' where "s' = self\<lparr>todos := AList.delete nm (todos self)\<rparr>"
    have res: "TodoApp_remove self nm = (None, s')"
      using True r by (simp add: TodoApp_remove_def s'_def)
    have t: "db_type s' = ''json''" using True by (simp add: s'_def)
    have st: "store s'" using d t by (simp add: store_def s'_def distinct_delete)
    have items: "stored_items s' = filter (\<lambda>x. name x \<noteq> nm) (stored_items self)"
      using True t by (simp add: stored_items_def s'_def materialise_delete)
    have nh: "\<not> has_item s' nm"
      unfolding has_item_def items by auto
    have len: "distinct (map name (stored_items self)) \<longrightarrow>
                    length (stored_items s') + 1 = length (stored_items self)"
      unfolding items using h filter_out_one [of name "stored_items self" nm]
      by (simp add: has_item_def)
    show ?thesis unfolding res prod.case by (intro conjI refl st nh items len)
  qed
  show ?thesis
  proof (intro conjI impI)
    assume "db_type self = ''json'' \<and> \<not> has_item self nm"
    then show "TodoApp_remove self nm = (Some (KeyError nm), self)" using absent by simp
  next
    assume "db_type self = ''sqlite3''"
    then show "fst (TodoApp_remove self nm) = None" using True by simp
  next
    assume "db_type self = ''sqlite3'' \<and> \<not> has_item self nm"
    then show "stored_items (snd (TodoApp_remove self nm)) = stored_items self"
      using True by simp
  next
    assume "has_item self nm"
    then show "case TodoApp_remove self nm of
               (e, s') \<Rightarrow>
                 e = None \<and> store s' \<and> \<not> has_item s' nm \<and>
                 stored_items s' = filter (\<lambda>x. name x \<noteq> nm) (stored_items self) \<and>
                 (distinct (map name (stored_items self)) \<longrightarrow>
                    length (stored_items s') + 1 = length (stored_items self))"
      by (rule present)
  qed
next
  case False
  from assms False obtain k where k: "db_type self = ''sqlite3''" "conn self = Some k"
      "execute_error (conn self) = None"
    by (rule store_sqlite)
  define s' where "s' = self\<lparr>conn := Some (execute_dml (filter (\<lambda>r. name r \<noteq> nm)) k)\<rparr>"
  have res: "TodoApp_remove self nm = (None, s')"
    using k by (simp add: TodoApp_remove_def s'_def)
  have t: "db_type s' = ''sqlite3''" using k by (simp add: s'_def)
  have e: "execute_error (conn s') = None"
    using k(2,3) by (simp add: s'_def execute_error_def execute_dml_def split: if_splits)
  have st: "store s'" using t e by (simp add: store_def)
  have items: "stored_items s' = filter (\<lambda>x. name x \<noteq> nm) (stored_items self)"
    using False k t by (simp add: stored_items_def s'_def execute_dml_def)
  have nh: "\<not> has_item s' nm"
    unfolding has_item_def items by auto
  have same: "stored_items s' = stored_items self" if "\<not> has_item self nm"
    unfolding items using that filter_absent [of nm name "stored_items self"]
    by (simp add: has_item_def)
  have len: "distinct (map name (stored_items self)) \<longrightarrow>
                  length (stored_items s') + 1 = length (stored_items self)"
    if "has_item self nm"
    unfolding items using that filter_out_one [of name "stored_items self" nm]
    by (simp add: has_item_def)
  have present: "case TodoApp_remove self nm of
               (e, s') \<Rightarrow>
                 e = None \<and> store s' \<and> \<not> has_item s' nm \<and>
                 stored_items s' = filter (\<lambda>x. name x \<noteq> nm) (stored_items self) \<and>
                 (distinct (map name (stored_items self)) \<longrightarrow>
                    length (stored_items s') + 1 = length (stored_items self))"
    if "has_item self nm"
    unfolding res prod.case by (intro conjI refl st nh items len that)
  show ?thesis
  proof (intro conjI impI)
    assume "db_type self = ''json'' \<and> \<not> has_item self nm"
    then show "TodoApp_remove self nm = (Some (KeyError nm), self)" using False by simp
  next
    show "fst (TodoApp_remove self nm) = None" by (simp add: res)
  next
    assume "db_type self = ''sqlite3'' \<and> \<not> has_item self nm"
    then show "stored_items (snd (TodoApp_remove self nm)) = stored_items self"
      using same by (simp add: res)
  next
    assume "has_item self nm"
    then show "case TodoApp_remove self nm of
               (e, s') \<Rightarrow>
                 e = None \<and> store s' \<and> \<not> has_item s' nm \<and>
                 stored_items s' = filter (\<lambda>x. name x \<noteq> nm) (stored_items self) \<and>
                 (distinct (map name (stored_items self)) \<longrightarrow>
                    length (stored_items s') + 1 = length (stored_items self))"
      by (rule present)
  qed
qed

theorem remove_differs_by_backend_witness:
  "store json_app \<and> store sqlite_app \<and>
   TodoApp_remove json_app ''Todo 5'' = (Some (KeyError ''Todo 5''), json_app) \<and>
   fst (TodoApp_remove sqlite_app ''Todo 5'') = None \<and>
   stored_items (snd (TodoApp_remove sqlite_app ''Todo 5'')) = stored_items sqlite_app \<and>
   fst (TodoApp_remove json_app ''Todo 4'') = None \<and>
   map name (stored_items (snd (TodoApp_remove json_app ''Todo 4'')))
     = [''Todo 1'', ''Todo 2'', ''Todo 3''] \<and>
   fst (TodoApp_remove sqlite_app ''Todo 4'') = None \<and>
   map name (stored_items (snd (TodoApp_remove sqlite_app ''Todo 4'')))
     = [''Todo 1'', ''Todo 2'', ''Todo 3'']"
proof -
  have tj: "db_type json_app = ''json''" by (simp add: json_app_def)
  have ts: "db_type sqlite_app = ''sqlite3''" by (simp add: sqlite_app_def)
  note j5 = remove_differs_by_backend [OF store_examples(1), of "''Todo 5''"]
  note s5 = remove_differs_by_backend [OF store_examples(2), of "''Todo 5''"]
  note j4 = remove_differs_by_backend [OF store_examples(1), of "''Todo 4''"]
  note s4 = remove_differs_by_backend [OF store_examples(2), of "''Todo 4''"]
  from j5 tj has_item_examples(3)
  have a: "TodoApp_remove json_app ''Todo 5'' = (Some (KeyError ''Todo 5''), json_app)" by blast
  from s5 ts have b: "fst (TodoApp_remove sqlite_app ''Todo 5'') = None" by blast
  from s5 ts has_item_examples(4)
  have c: "stored_items (snd (TodoApp_remove sqlite_app ''Todo 5'')) = stored_items sqlite_app"
    by blast
  obtain ej sj where rj: "TodoApp_remove json_app ''Todo 4'' = (ej, sj)"
    by (cases "TodoApp_remove json_app ''Todo 4''")
  from j4 has_item_examples(1) rj
  have dj: "ej = None"
    "stored_items sj = filter (\<lambda>x. name x \<noteq> ''Todo 4'') (stored_items json_app)"
    by simp_all
  have nj: "map name (stored_items sj) = [''Todo 1'', ''Todo 2'', ''Todo 3'']"
    unfolding dj(2) by (simp add: stored_items_def json_app_def test_data_json_def)
  obtain es ss where rs: "TodoApp_remove sqlite_app ''Todo 4'' = (es, ss)"
    by (cases "TodoApp_remove sqlite_app ''Todo 4''")
  from s4 has_item_examples(2) rs
  have ds: "es = None"
    "stored_items ss = filter (\<lambda>x. name x \<noteq> ''Todo 4'') (stored_items sqlite_app)"
    by simp_all
  have ns: "map name (stored_items ss) = [''Todo 1'', ''Todo 2'', ''Todo 3'']"
    unfolding ds(2)
    by (simp add: stored_items_def sqlite_app_def test_data_rows_def test_data_json_def)
  show ?thesis
    using store_examples a b c dj(1) nj ds(1) ns by (simp add: rj rs)
qed

section \<open>Adding an item\<close>

lemma update_absent:
  assumes "k \<notin> fst ` set al"
  shows "AList.update k v al = al @ [(k, v)]"
  using assms by (induction al) auto

lemma filter_name_absent:
  "\<not> has_item self nm \<Longrightarrow> filter (\<lambda>x. name x = nm) (stored_items self) = []"
  by (auto simp: has_item_def filter_empty_conv)

lemma sort_items_single: "sort_items sort_by reverse [x] = [x]"
  by (simp add: sort_items_def py_sort_def)

lemma valid_due_year_one: "valid_datetime due_year_one"
  by (simp add: valid_datetime_def due_year_one_def MINYEAR_def MAXYEAR_def days_in_month_def
      DAYS_IN_MONTH_def)

lemma add_overflow:
  assumes "due_date_str due = Inl e"
  shows "TodoApp_add self nm descr due = (Some e, self)"
  using assms by (simp add: TodoApp_add_def)

text \<open>What \<^verbatim>\<open>add\<close> does to a store when the due date has been normalised to \<open>s\<close>.\<close>

lemma add_absent:
  assumes "store self" "\<not> has_item self nm" "due_date_str due = Inr s"
  shows "\<exists>s'. TodoApp_add self nm descr due = (None, s') \<and> store s' \<and>
          stored_items s' = stored_items self
             @ [\<lparr>name = nm, description = descr, due_date = s, done = False\<rparr>]"
proof (cases "db_type self = ''json''")
  case True
  have d: "distinct (map fst (todos self))" using assms(1) True by (simp add: store_def)
  have n: "nm \<notin> fst ` set (todos self)" using assms(2) True by (simp add: has_item_json)
  then have m: "map_of (todos self) nm = None" by (simp add: map_of_eq_None_iff)
  define r where "r = \<lparr>rec_description = descr, rec_due_date = Some s, rec_done = Some False\<rparr>"
  define s' where "s' = self\<lparr>todos := AList.update nm r (todos self)\<rparr>"
  have res: "TodoApp_add self nm descr due = (None, s')"
    using True m assms(3) by (simp add: TodoApp_add_def s'_def r_def)
  have t: "db_type s' = ''json''" using True by (simp add: s'_def)
  have st: "store s'" using d t by (simp add: store_def s'_def distinct_update)
  have "materialise (nm, r) = \<lparr>name = nm, description = descr, due_date = s, done = False\<rparr>"
    by (simp add: materialise_def r_def)
  then have items: "stored_items s' = stored_items self
             @ [\<lparr>name = nm, description = descr, due_date = s, done = False\<rparr>]"
    using True t by (simp add: stored_items_def s'_def update_absent [OF n])
  show ?thesis using res st items by blast
next
  case False
  from assms(1) False obtain k where k: "db_type self = ''sqlite3''" "conn self = Some k"
      "execute_error (conn self) = None"
    by (rule store_sqlite)
  have f: "find (\<lambda>r. name r = nm) (rows k) = None"
    using assms(2) has_item_sqlite [OF False k(2)] by simp
  define s' where "s' = self\<lparr>conn := Some (execute_dml
      (\<lambda>t. t @ [\<lparr>name = nm, description = descr, due_date = s, done = False\<rparr>]) k)\<rparr>"
  have res: "TodoApp_add self nm descr due = (None, s')"
    using k f assms(3) by (simp add: TodoApp_add_def Let_def s'_def)
  have t: "db_type s' = ''sqlite3''" using k by (simp add: s'_def)
  have e: "execute_error (conn s') = None"
    using k(2,3) by (simp add: s'_def execute_error_def execute_dml_def split: if_splits)
  have st: "store s'" using t e by (simp add: store_def)
  have items: "stored_items s' = stored_items self
             @ [\<lparr>name = nm, description = descr, due_date = s, done = False\<rparr>]"
    using False k t by (simp add: stored_items_def s'_def execute_dml_def)
  show ?thesis using res st items by blast
qed

lemma add_present:
  assumes "store self" "has_item self nm" "due_date_str due = Inr s"
  shows "TodoApp_add self nm descr due
         = (Some (ValueError ''A Todo item with the requested name already exists''), self)"
proof (cases "db_type self = ''json''")
  case True
  then show ?thesis
    using assms(2,3) by (simp add: TodoApp_add_def has_item_json_map_of truthy_iff)
next
  case False
  from assms(1) False obtain k where k: "db_type self = ''sqlite3''" "conn self = Some k"
      "execute_error (conn self) = None"
    by (rule store_sqlite)
  have "find (\<lambda>r. name r = nm) (rows k) \<noteq> None"
    using assms(2) has_item_sqlite [OF False k(2)] by simp
  then show ?thesis
    using k assms(3) by (simp add: TodoApp_add_def Let_def truthy_iff)
qed

text \<open>
  C2, as the code has it. For a store of either backend, \<^verbatim>\<open>add\<close> with a name that an
  item already has raises an exception and leaves the whole state of the application,
  hence the number of items and every item, as it was. The due date is normalised before
  the name is looked up: the exception is the \<^verbatim>\<open>ValueError\<close> for the duplicate name
  whenever the due date normalises, which an absent, a naive and a UTC due date always
  do, and the error of the conversion otherwise.
\<close>

theorem add_existing_name_fails:
  assumes "store self" "has_item self nm"
  shows "snd (TodoApp_add self nm descr due) = self \<and>
    fst (TodoApp_add self nm descr due)
      = Some (case due_date_str due of
                Inl e \<Rightarrow> e
              | Inr s \<Rightarrow> ValueError ''A Todo item with the requested name already exists'') \<and>
    (due = None \<or> (\<exists>d. due = Some d \<and> (tzinfo d = None \<or> tzinfo d = Some ZoneInfo_UTC)) \<longrightarrow>
       fst (TodoApp_add self nm descr due)
         = Some (ValueError ''A Todo item with the requested name already exists''))"
proof -
  have r: "TodoApp_add self nm descr due
      = (Some (case due_date_str due of
                Inl e \<Rightarrow> e
              | Inr s \<Rightarrow> ValueError ''A Todo item with the requested name already exists''), self)"
  proof (cases "due_date_str due")
    case (Inl e)
    then show ?thesis using add_overflow [OF Inl] by simp
  next
    case (Inr s)
    then show ?thesis using add_present [OF assms Inr] by simp
  qed
  have "\<exists>s. due_date_str due = Inr s"
    if "due = None \<or> (\<exists>d. due = Some d \<and> (tzinfo d = None \<or> tzinfo d = Some ZoneInfo_UTC))"
    using that by (auto simp: due_date_str_def)
  then show ?thesis using r by auto
qed

theorem add_existing_name_fails_witness:
  "store sqlite_app \<and> has_item sqlite_app ''Todo 4'' \<and>
   TodoApp_add sqlite_app ''Todo 4'' '''' (Some due_naive)
     = (Some (ValueError ''A Todo item with the requested name already exists''), sqlite_app)"
proof -
  note t = add_existing_name_fails [OF store_examples(2) has_item_examples(2),
      of "''''" "Some due_naive"]
  have "tzinfo due_naive = None" by (simp add: due_naive_def)
  with t have "fst (TodoApp_add sqlite_app ''Todo 4'' '''' (Some due_naive))
         = Some (ValueError ''A Todo item with the requested name already exists'')"
    by blast
  moreover from t have "snd (TodoApp_add sqlite_app ''Todo 4'' '''' (Some due_naive)) = sqlite_app"
    by blast
  ultimately show ?thesis
    using store_examples(2) has_item_examples(2)
    by (cases "TodoApp_add sqlite_app ''Todo 4'' '''' (Some due_naive)") simp
qed

text \<open>
  The claim as it was written fails for a due date whose UTC form leaves the years 1 to
  9999: \<^verbatim>\<open>astimezone\<close> raises \<^verbatim>\<open>OverflowError\<close> before the name is looked up.
\<close>

theorem add_existing_name_counterexample:
  "store json_app \<and> has_item json_app ''Todo 4'' \<and> valid_datetime due_year_one \<and>
   TodoApp_add json_app ''Todo 4'' '''' (Some due_year_one) = (Some OverflowError, json_app) \<and>
   OverflowError \<noteq> ValueError ''A Todo item with the requested name already exists''"
  using store_examples(1) has_item_examples(1) valid_due_year_one
    add_overflow [OF due_date_str_year_one]
  by simp

text \<open>
  C3, as the code has it. For a store of either backend in which no item has the name,
  and a due date that normalises (to \<open>s\<close>), \<^verbatim>\<open>add\<close> raises nothing and appends the new
  item, with \<^verbatim>\<open>done\<close> false, to the stored items; \<^verbatim>\<open>list\<close> with any valid arguments
  then succeeds, and the items of that name in its result are exactly this one item.
\<close>

theorem add_new_name_listed_once:
  assumes "store self" "\<not> has_item self nm" "due_date_str due = Inr s"
    "valid_sort sort_by sort_order"
  shows "case TodoApp_add self nm descr due of
           (e, s') \<Rightarrow>
             e = None \<and> store s' \<and>
             stored_items s' = stored_items self
                @ [\<lparr>name = nm, description = descr, due_date = s, done = False\<rparr>] \<and>
             (case TodoApp_list s' sort_by sort_order of
                Inl err \<Rightarrow> False
              | Inr xs \<Rightarrow>
                  filter (\<lambda>x. name x = nm) xs
                    = [\<lparr>name = nm, description = descr, due_date = s, done = False\<rparr>])"
proof -
  let ?new = "\<lparr>name = nm, description = descr, due_date = s, done = False\<rparr>"
  from add_absent [OF assms(1,2,3), of descr]
  obtain s' where s': "TodoApp_add self nm descr due = (None, s')" "store s'"
      "stored_items s' = stored_items self @ [?new]"
    by blast
  have l: "TodoApp_list s' sort_by sort_order
      = Inr (sort_items sort_by (sort_order = ''desc'') (stored_items s'))"
    by (rule TodoApp_list_store [OF s'(2) assms(4)])
  have "filter (\<lambda>x. name x = nm) (stored_items self) = []"
    using assms(2) by (rule filter_name_absent)
  then have "filter (\<lambda>x. name x = nm) (stored_items s') = [?new]"
    by (simp add: s'(3))
  then have f: "filter (\<lambda>x. name x = nm)
      (sort_items sort_by (sort_order = ''desc'') (stored_items s')) = [?new]"
    by (simp only: filter_sort_items sort_items_single)
  show ?thesis
    unfolding s'(1) prod.case l sum.case
    by (intro conjI refl s'(2) s'(3) f)
qed

theorem add_new_name_listed_once_witness:
  "store sqlite_app \<and> \<not> has_item sqlite_app ''Todo 5'' \<and>
   due_date_str (Some due_new_york) = Inr ''2024-10-10T20:00Z'' \<and>
   valid_sort ''done'' ''desc'' \<and>
   fst (TodoApp_add sqlite_app ''Todo 5'' ''five'' (Some due_new_york)) = None \<and>
   map_sum id (filter (\<lambda>x. name x = ''Todo 5''))
     (TodoApp_list (snd (TodoApp_add sqlite_app ''Todo 5'' ''five'' (Some due_new_york)))
        ''done'' ''desc'')
     = Inr [\<lparr>name = ''Todo 5'', description = ''five'', due_date = ''2024-10-10T20:00Z'',
             done = False\<rparr>]"
proof -
  have v: "valid_sort ''done'' ''desc''" by (simp add: valid_sort_def)
  obtain e s' where r: "TodoApp_add sqlite_app ''Todo 5'' ''five'' (Some due_new_york) = (e, s')"
    by (cases "TodoApp_add sqlite_app ''Todo 5'' ''five'' (Some due_new_york)")
  from add_new_name_listed_once [OF store_examples(2) has_item_examples(4)
      due_date_str_new_york v, of "''five''"] r
  have t: "e = None"
    "case TodoApp_list s' ''done'' ''desc'' of
       Inl err \<Rightarrow> False
     | Inr xs \<Rightarrow> filter (\<lambda>x. name x = ''Todo 5'') xs
          = [\<lparr>name = ''Todo 5'', description = ''five'', due_date = ''2024-10-10T20:00Z'',
               done = False\<rparr>]"
    by simp_all
  from t(2) have "map_sum id (filter (\<lambda>x. name x = ''Todo 5'')) (TodoApp_list s' ''done'' ''desc'')
     = Inr [\<lparr>name = ''Todo 5'', description = ''five'', due_date = ''2024-10-10T20:00Z'',
             done = False\<rparr>]"
    by (cases "TodoApp_list s' ''done'' ''desc''") simp_all
  with t(1) store_examples(2) has_item_examples(4) due_date_str_new_york v
  show ?thesis by (simp add: r)
qed

text \<open>
  The claim as it was written fails for the same due date: \<^verbatim>\<open>add\<close> raises
  \<^verbatim>\<open>OverflowError\<close>, and \<^verbatim>\<open>list\<close> then shows no item of the new name.
\<close>

theorem add_new_name_counterexample:
  "store json_app \<and> \<not> has_item json_app ''Todo 5'' \<and> valid_datetime due_year_one \<and>
   TodoApp_add json_app ''Todo 5'' '''' (Some due_year_one) = (Some OverflowError, json_app) \<and>
   map_sum id (filter (\<lambda>x. name x = ''Todo 5'')) (TodoApp_list json_app ''name'' ''asc'') = Inr []"
proof -
  have v: "valid_sort ''name'' ''asc''" by (simp add: valid_sort_def)
  have "filter (\<lambda>x. name x = ''Todo 5'') (stored_items json_app) = []"
    using has_item_examples(3) by (rule filter_name_absent)
  then have "filter (\<lambda>x. name x = ''Todo 5'')
      (sort_items ''name'' (''asc'' = ''desc'') (stored_items json_app)) = []"
    by (simp only: filter_sort_items) (simp add: sort_items_def py_sort_def)
  then have "map_sum id (filter (\<lambda>x. name x = ''Todo 5'')) (TodoApp_list json_app ''name'' ''asc'')
      = Inr []"
    by (simp only: TodoApp_list_store [OF store_examples(1) v] map_sum.simps)
  then show ?thesis
    using store_examples(1) has_item_examples(3) valid_due_year_one
      add_overflow [OF due_date_str_year_one, of json_app "''Todo 5''" "''''"]
    by simp
qed

section \<open>Persistence\<close>

lemma add_keeps_db:
  "db (snd (TodoApp_add self nm descr due)) = db self \<and>
   db_type (snd (TodoApp_add self nm descr due)) = db_type self"
  by (simp add: TodoApp_add_def Let_def split: sum.splits option.splits)

lemma remove_keeps_db:
  "db (snd (TodoApp_remove self nm)) = db self \<and>
   db_type (snd (TodoApp_remove self nm)) = db_type self"
  by (simp add: TodoApp_remove_def split: option.splits)

lemma done_keeps_db:
  "db (snd (TodoApp_done self nm)) = db self \<and>
   db_type (snd (TodoApp_done self nm)) = db_type self"
  by (simp add: TodoApp_done_def Let_def split: option.splits)

lemma apply_operation_keeps_db:
  "db (apply_operation self x) = db self \<and> db_type (apply_operation self x) = db_type self"
  by (cases x) (simp_all add: add_keeps_db remove_keeps_db done_keeps_db)

lemma run_operations_keeps_db:
  "db (run_operations self ops) = db self \<and> db_type (run_operations self ops) = db_type self"
  unfolding run_operations_def
  by (induction ops arbitrary: self) (simp_all add: apply_operation_keeps_db)

text \<open>
  C8. With the JSON backend, after any sequence of \<^verbatim>\<open>add\<close>, \<^verbatim>\<open>remove\<close> and \<^verbatim>\<open>done\<close>
  calls (failed ones included), on any file system, \<^verbatim>\<open>close\<close> raises nothing and leaves
  the application as it is, and \<^verbatim>\<open>load\<close> on a new \<^verbatim>\<open>TodoApp\<close> for the same path then
  raises nothing and holds exactly the dictionary that was in memory at \<^verbatim>\<open>close\<close>, in
  the same order.
\<close>

theorem json_close_then_load:
  assumes "db_type self = ''json''"
  shows "case TodoApp_close fs (run_operations self ops) of
           (e, fs', s') \<Rightarrow>
             e = None \<and> s' = run_operations self ops \<and>
             (case TodoApp_load fs' (TodoApp_init (db self) ''json'') of
                (e', fs'', fresh) \<Rightarrow>
                  e' = None \<and> fs'' = fs' \<and> todos fresh = todos (run_operations self ops))"
proof -
  define s where "s = run_operations self ops"
  have k: "db s = db self" "db_type s = ''json''"
    using run_operations_keeps_db [of self ops] assms by (simp_all add: s_def)
  have c: "TodoApp_close fs s = (None, fs(db self \<mapsto> JsonFile (todos s)), s)"
    using k by (simp add: TodoApp_close_def TodoApp_save_def)
  have l: "TodoApp_load (fs(db self \<mapsto> JsonFile (todos s))) (TodoApp_init (db self) ''json'')
      = (None, fs(db self \<mapsto> JsonFile (todos s)), (TodoApp_init (db self) ''json'')\<lparr>todos := todos s\<rparr>)"
    by (simp add: TodoApp_load_def TodoApp_init_def)
  show ?thesis
    unfolding s_def [symmetric] c prod.case l by simp
qed

theorem json_close_then_load_witness:
  "db_type json_app = ''json'' \<and>
   map fst (todos (run_operations json_app
      [Add ''Todo 5'' ''five'' None, Done ''Todo 1'', Remove ''Todo 2'', Remove ''Todo 9'',
       Add ''Todo 1'' '''' None])) = [''Todo 1'', ''Todo 3'', ''Todo 4'', ''Todo 5''] \<and>
   fst (TodoApp_close Map.empty (run_operations json_app
      [Add ''Todo 5'' ''five'' None, Done ''Todo 1'', Remove ''Todo 2'', Remove ''Todo 9'',
       Add ''Todo 1'' '''' None])) = None \<and>
   todos (snd (snd (TodoApp_load
      (fst (snd (TodoApp_close Map.empty (run_operations json_app
         [Add ''Todo 5'' ''five'' None, Done ''Todo 1'', Remove ''Todo 2'', Remove ''Todo 9'',
          Add ''Todo 1'' '''' None]))))
      (TodoApp_init (db json_app) ''json''))))
   = todos (run_operations json_app
      [Add ''Todo 5'' ''five'' None, Done ''Todo 1'', Remove ''Todo 2'', Remove ''Todo 9'',
       Add ''Todo 1'' '''' None])"
proof -
  let ?ops = "[Add ''Todo 5'' ''five'' None, Done ''Todo 1'', Remove ''Todo 2'', Remove ''Todo 9'',
       Add ''Todo 1'' '''' None]"
  have t: "db_type json_app = ''json''" by (simp add: json_app_def)
  have n: "map fst (todos (run_operations json_app ?ops))
      = [''Todo 1'', ''Todo 3'', ''Todo 4'', ''Todo 5'']"
    by (simp add: run_operations_def json_app_def test_data_json_def TodoApp_add_def
        TodoApp_done_def TodoApp_remove_def due_date_str_def)
  from json_close_then_load [OF t, where fs = Map.empty and ops = ?ops] t n show ?thesis
    by (auto split: prod.splits)
qed

subsection \<open>The SQLite backend never commits\<close>

lemma sqlite_close_keeps_files:
  assumes "db_type self = ''sqlite3''"
  shows "fst (snd (TodoApp_close fs self)) = fs"
  using assms by (simp add: TodoApp_close_def split: option.splits)

text \<open>
  C1 at a concrete session. A new SQLite store is opened at a path that does not exist,
  \<^verbatim>\<open>add("Todo 5")\<close> succeeds and \<^verbatim>\<open>list\<close> on the same connection shows the item; after
  \<^verbatim>\<open>close\<close>, a new \<^verbatim>\<open>TodoApp\<close> loaded from the same file lists nothing: the insertion
  was made in a transaction that no call commits.
\<close>

theorem sqlite_add_lost_after_close:
  "(let fresh = TodoApp_init ''todos.sqlite3'' ''sqlite3'';
        (e0, fs0, a0) = TodoApp_load Map.empty fresh;
        (e1, a1) = TodoApp_add a0 ''Todo 5'' '''' None;
        (e2, fs2, a2) = TodoApp_close fs0 a1;
        (e3, fs3, a3) = TodoApp_load fs2 fresh
    in e0 = None \<and> e1 = None \<and> e2 = None \<and> e3 = None \<and>
       map_sum id (map name) (TodoApp_list a1 ''name'' ''asc'') = Inr [''Todo 5''] \<and>
       fs2 ''todos.sqlite3'' = Some (SqliteFile (Some [])) \<and>
       TodoApp_list a3 ''name'' ''asc'' = Inr [])"
  by (simp add: TodoApp_init_def TodoApp_load_def TodoApp_add_def due_date_str_def
      execute_error_def execute_dml_def TodoApp_close_def TodoApp_list_def Let_def
      sort_items_def py_sort_def order_by_def lower_asc_desc)

section \<open>The due date that add stores\<close>

lemma add_stores_absent:
  assumes "store self" "\<not> has_item self nm" "due_date_str due = Inr s"
  shows "add_stores self nm descr due s"
  using add_absent [OF assms, of descr] by (auto simp: add_stores_def)

lemma astimezone_utc_Inl:
  assumes "astimezone_utc d tz = Inl e"
  shows "e = OverflowError \<and>
    \<not> (0 < (clock_seconds d - utcoffset tz) div 86400 \<and>
       (clock_seconds d - utcoffset tz) div 86400 \<le> MAXORDINAL)"
proof (cases "0 < (clock_seconds d - utcoffset tz) div 86400 \<and>
              (clock_seconds d - utcoffset tz) div 86400 \<le> MAXORDINAL")
  case True
  then obtain u where "datetime_sub d (utcoffset tz) = Inr u"
    using datetime_sub_in_range [of d "utcoffset tz"] by blast
  then show ?thesis using assms by (simp add: astimezone_utc_def)
next
  case False
  then show ?thesis
    using assms datetime_sub_out_of_range [of d "utcoffset tz"] by (simp add: astimezone_utc_def)
qed

lemma astimezone_utc_Inr:
  assumes "astimezone_utc d tz = Inr u"
  shows "valid_datetime u \<and> tzinfo u = Some ZoneInfo_UTC \<and>
         clock_seconds u = clock_seconds d - utcoffset tz"
  using astimezone_utc_cases [of d tz] assms by auto

lemma valid_due_examples:
  "valid_datetime due_utc" "valid_datetime due_new_york" "valid_datetime due_year_999"
  using valid_due_naive
  by (simp_all add: valid_datetime_def due_utc_def due_new_york_def due_year_999_def
      MINYEAR_def MAXYEAR_def days_in_month_def DAYS_IN_MONTH_def)

lemma strftime_year_999: "strftime due_year_999 = ''999-12-31T23:59Z''"
  by (simp add: due_year_999_def strftime_def year_str_def pad2_def digit_def)

lemma due_date_str_examples:
  "due_date_str (Some due_utc) = Inr ''2024-10-10T16:00Z''"
  "due_date_str (Some due_naive) = Inr ''2024-10-10T16:00Z''"
  "due_date_str (Some due_year_999) = Inr ''999-12-31T23:59Z''"
proof -
  show "due_date_str (Some due_utc) = Inr ''2024-10-10T16:00Z''"
    using due_utc_str by (simp add: due_date_str_def due_utc_def)
  have "strftime due_naive = strftime due_utc" by (simp add: strftime_def due_utc_def)
  then show "due_date_str (Some due_naive) = Inr ''2024-10-10T16:00Z''"
    using due_utc_str by (simp add: due_date_str_def due_naive_def)
  show "due_date_str (Some due_year_999) = Inr ''999-12-31T23:59Z''"
    using strftime_year_999 by (simp add: due_date_str_def due_year_999_def)
qed

text \<open>
  C6, as the code has it. \<^verbatim>\<open>add\<close> on a store, with a name that no item has, for every
  datetime \<open>d\<close>:
  \<^item> without a due date the new item is stored with the empty string;
  \<^item> a naive \<open>d\<close> is stored as it is printed, with no offset applied, exactly as the same
    datetime in the UTC zone is;
  \<^item> an aware \<open>d\<close> is converted to UTC before it is stored whenever its UTC form lies in
    the years 1 to 9999: the stored datetime is the offset of the zone earlier on the
    clock; otherwise \<^verbatim>\<open>add\<close> raises \<^verbatim>\<open>OverflowError\<close> and stores nothing;
  \<^item> the stored string has the pattern \<^verbatim>\<open>YYYY-MM-DDTHH:MMZ\<close> whenever the year of the
    stored datetime has four digits;
  \<^item> 16:00 on 10 October 2024 is stored as \<^verbatim>\<open>2024-10-10T16:00Z\<close> in UTC and without a
    zone, and as \<^verbatim>\<open>2024-10-10T20:00Z\<close> in New York.
\<close>

theorem add_stores_due_date_in_utc:
  assumes "store self" "\<not> has_item self nm" "valid_datetime d"
  shows "add_stores self nm descr None '''' \<and>
    (tzinfo d = None \<longrightarrow>
       add_stores self nm descr (Some d) (strftime d) \<and>
       add_stores self nm descr (Some (d\<lparr>tzinfo := Some ZoneInfo_UTC\<rparr>)) (strftime d)) \<and>
    (\<forall>tz. tzinfo d = Some tz \<longrightarrow>
       (case astimezone_utc d tz of
          Inl e \<Rightarrow>
            e = OverflowError \<and>
            \<not> (0 < (clock_seconds d - utcoffset tz) div 86400 \<and>
               (clock_seconds d - utcoffset tz) div 86400 \<le> MAXORDINAL) \<and>
            TodoApp_add self nm descr (Some d) = (Some OverflowError, self)
        | Inr u \<Rightarrow>
            valid_datetime u \<and> tzinfo u = Some ZoneInfo_UTC \<and>
            clock_seconds u = clock_seconds d - utcoffset tz \<and>
            add_stores self nm descr (Some d) (strftime u) \<and>
            (1000 \<le> year u \<longrightarrow> canonical_utc (strftime u)))) \<and>
    (1000 \<le> year d \<longrightarrow> canonical_utc (strftime d)) \<and>
    add_stores json_app ''Todo 5'' '''' (Some due_utc) ''2024-10-10T16:00Z'' \<and>
    add_stores json_app ''Todo 5'' '''' (Some due_new_york) ''2024-10-10T20:00Z'' \<and>
    add_stores json_app ''Todo 5'' '''' (Some due_naive) ''2024-10-10T16:00Z'' \<and>
    add_stores sqlite_app ''Todo 5'' '''' (Some due_utc) ''2024-10-10T16:00Z'' \<and>
    add_stores sqlite_app ''Todo 5'' '''' (Some due_new_york) ''2024-10-10T20:00Z'' \<and>
    add_stores sqlite_app ''Todo 5'' '''' (Some due_naive) ''2024-10-10T16:00Z''"
proof (intro conjI allI impI)
  show "add_stores self nm descr None ''''"
    by (rule add_stores_absent [OF assms(1,2)]) (simp add: due_date_str_def)
next
  assume "tzinfo d = None"
  then show "add_stores self nm descr (Some d) (strftime d)"
    by (intro add_stores_absent [OF assms(1,2)]) (simp add: due_date_str_def)
next
  have "strftime (d\<lparr>tzinfo := Some ZoneInfo_UTC\<rparr>) = strftime d" by (simp add: strftime_def)
  then show "add_stores self nm descr (Some (d\<lparr>tzinfo := Some ZoneInfo_UTC\<rparr>)) (strftime d)"
    by (intro add_stores_absent [OF assms(1,2)]) (simp add: due_date_str_def)
next
  fix tz assume tz: "tzinfo d = Some tz"
  note a = due_date_str_aware [OF assms(3) tz]
  show "case astimezone_utc d tz of
          Inl e \<Rightarrow>
            e = OverflowError \<and>
            \<not> (0 < (clock_seconds d - utcoffset tz) div 86400 \<and>
               (clock_seconds d - utcoffset tz) div 86400 \<le> MAXORDINAL) \<and>
            TodoApp_add self nm descr (Some d) = (Some OverflowError, self)
        | Inr u \<Rightarrow>
            valid_datetime u \<and> tzinfo u = Some ZoneInfo_UTC \<and>
            clock_seconds u = clock_seconds d - utcoffset tz \<and>
            add_stores self nm descr (Some d) (strftime u) \<and>
            (1000 \<le> year u \<longrightarrow> canonical_utc (strftime u))"
  proof (cases "astimezone_utc d tz")
    case (Inl e)
    have e: "e = OverflowError" using astimezone_utc_Inl [OF Inl] by simp
    have "due_date_str (Some d) = Inl OverflowError" using a Inl e by simp
    then have "TodoApp_add self nm descr (Some d) = (Some OverflowError, self)"
      by (rule add_overflow)
    then show ?thesis using astimezone_utc_Inl [OF Inl] by (simp add: Inl)
  next
    case (Inr u)
    have "due_date_str (Some d) = Inr (strftime u)" using a Inr by simp
    then have "add_stores self nm descr (Some d) (strftime u)"
      by (rule add_stores_absent [OF assms(1,2)])
    then show ?thesis
      using astimezone_utc_Inr [OF Inr] canonical_strftime [of u] by (simp add: Inr)
  qed
next
  assume "1000 \<le> year d"
  then show "canonical_utc (strftime d)" by (rule canonical_strftime)
next
  show "add_stores json_app ''Todo 5'' '''' (Some due_utc) ''2024-10-10T16:00Z''"
    by (rule add_stores_absent [OF store_examples(1) has_item_examples(3) due_date_str_examples(1)])
next
  show "add_stores json_app ''Todo 5'' '''' (Some due_new_york) ''2024-10-10T20:00Z''"
    by (rule add_stores_absent [OF store_examples(1) has_item_examples(3) due_date_str_new_york])
next
  show "add_stores json_app ''Todo 5'' '''' (Some due_naive) ''2024-10-10T16:00Z''"
    by (rule add_stores_absent [OF store_examples(1) has_item_examples(3) due_date_str_examples(2)])
next
  show "add_stores sqlite_app ''Todo 5'' '''' (Some due_utc) ''2024-10-10T16:00Z''"
    by (rule add_stores_absent [OF store_examples(2) has_item_examples(4) due_date_str_examples(1)])
next
  show "add_stores sqlite_app ''Todo 5'' '''' (Some due_new_york) ''2024-10-10T20:00Z''"
    by (rule add_stores_absent [OF store_examples(2) has_item_examples(4) due_date_str_new_york])
next
  show "add_stores sqlite_app ''Todo 5'' '''' (Some due_naive) ''2024-10-10T16:00Z''"
    by (rule add_stores_absent [OF store_examples(2) has_item_examples(4) due_date_str_examples(2)])
qed

theorem add_stores_due_date_in_utc_witness:
  "store sqlite_app \<and> \<not> has_item sqlite_app ''Todo 5'' \<and> valid_datetime due_new_york \<and>
   tzinfo due_new_york = Some (ZoneInfo ''America/New_York'' (- 14400)) \<and>
   astimezone_utc due_new_york (ZoneInfo ''America/New_York'' (- 14400))
     = Inr (due_new_york\<lparr>hour := 20, tzinfo := Some ZoneInfo_UTC\<rparr>) \<and>
   clock_seconds (due_new_york\<lparr>hour := 20, tzinfo := Some ZoneInfo_UTC\<rparr>)
     = clock_seconds due_new_york + 14400 \<and>
   add_stores sqlite_app ''Todo 5'' ''five'' (Some due_new_york)
     (strftime (due_new_york\<lparr>hour := 20, tzinfo := Some ZoneInfo_UTC\<rparr>)) \<and>
   canonical_utc (strftime (due_new_york\<lparr>hour := 20, tzinfo := Some ZoneInfo_UTC\<rparr>)) \<and>
   strftime (due_new_york\<lparr>hour := 20, tzinfo := Some ZoneInfo_UTC\<rparr>) = ''2024-10-10T20:00Z''"
proof -
  let ?tz = "ZoneInfo ''America/New_York'' (- 14400)"
  let ?u = "due_new_york\<lparr>hour := 20, tzinfo := Some ZoneInfo_UTC\<rparr>"
  have tz: "tzinfo due_new_york = Some ?tz" by (simp add: due_new_york_def)
  have a: "astimezone_utc due_new_york ?tz = Inr ?u"
    by (simp add: astimezone_utc_def datetime_sub_new_york)
  have y: "1000 \<le> year ?u" by (simp add: due_new_york_def due_naive_def)
  have s: "strftime ?u = ''2024-10-10T20:00Z''"
    by (simp add: due_new_york_def due_naive_def strftime_def year_str_def pad4_def pad2_def
        digit_def)
  note t = add_stores_due_date_in_utc [OF store_examples(2) has_item_examples(4)
      valid_due_examples(2), of "''five''"]
  from t tz have "case astimezone_utc due_new_york ?tz of
          Inl e \<Rightarrow>
            e = OverflowError \<and>
            \<not> (0 < (clock_seconds due_new_york - utcoffset ?tz) div 86400 \<and>
               (clock_seconds due_new_york - utcoffset ?tz) div 86400 \<le> MAXORDINAL) \<and>
            TodoApp_add sqlite_app ''Todo 5'' ''five'' (Some due_new_york)
              = (Some OverflowError, sqlite_app)
        | Inr u \<Rightarrow>
            valid_datetime u \<and> tzinfo u = Some ZoneInfo_UTC \<and>
            clock_seconds u = clock_seconds due_new_york - utcoffset ?tz \<and>
            add_stores sqlite_app ''Todo 5'' ''five'' (Some due_new_york) (strftime u) \<and>
            (1000 \<le> year u \<longrightarrow> canonical_utc (strftime u))"
    by blast
  then have k: "clock_seconds ?u = clock_seconds due_new_york - utcoffset ?tz"
    "add_stores sqlite_app ''Todo 5'' ''five'' (Some due_new_york) (strftime ?u)"
    "1000 \<le> year ?u \<longrightarrow> canonical_utc (strftime ?u)"
    unfolding a sum.case by blast+
  from k(1) have k1: "clock_seconds ?u = clock_seconds due_new_york + 14400" by simp
  from k(3) y have k3: "canonical_utc (strftime ?u)" by blast
  show ?thesis
    by (intro conjI store_examples(2) has_item_examples(4) valid_due_examples(2) tz a k1 k(2)
        k3 s)
qed

text \<open>
  The claim as it was written fails in two places. The due date of \<open>due_year_one\<close>
  carries a zone and is neither converted nor stored: \<^verbatim>\<open>add\<close> raises
  \<^verbatim>\<open>OverflowError\<close>. And 23:59 on 31 December 999 is stored with a year of three
  digits, which is not the pattern.
\<close>

theorem add_stores_due_date_counterexample:
  "store json_app \<and> \<not> has_item json_app ''Todo 5'' \<and>
   valid_datetime due_year_one \<and> tzinfo due_year_one = Some (ZoneInfo ''Asia/Tokyo'' 33539) \<and>
   TodoApp_add json_app ''Todo 5'' '''' (Some due_year_one) = (Some OverflowError, json_app) \<and>
   valid_datetime due_year_999 \<and>
   add_stores json_app ''Todo 5'' '''' (Some due_year_999) ''999-12-31T23:59Z'' \<and>
   \<not> canonical_utc ''999-12-31T23:59Z''"
proof -
  have tz: "tzinfo due_year_one = Some (ZoneInfo ''Asia/Tokyo'' 33539)"
    by (simp add: due_year_one_def)
  have o: "TodoApp_add json_app ''Todo 5'' '''' (Some due_year_one) = (Some OverflowError, json_app)"
    by (rule add_overflow [OF due_date_str_year_one])
  have s: "add_stores json_app ''Todo 5'' '''' (Some due_year_999) ''999-12-31T23:59Z''"
    by (rule add_stores_absent [OF store_examples(1) has_item_examples(3) due_date_str_examples(3)])
  have n: "\<not> canonical_utc ''999-12-31T23:59Z''" by (simp add: canonical_utc_def)
  show ?thesis
    by (intro conjI store_examples(1) has_item_examples(3) valid_due_year_one tz o
        valid_due_examples(3) s n)
qed

section \<open>Due dates before the year 1000\<close>

lemma store_empty_examples: "store empty_json_app" "store empty_sqlite_app"
  by (simp_all add: store_def empty_json_app_def empty_sqlite_app_def execute_error_def)

lemma utc_minutes_year_999: "utc_minutes due_year_999 < utc_minutes due_naive"
proof -
  have a: "toordinal due_year_999 = 364877"
    by (simp add: toordinal_def due_year_999_def ymd2ord_def days_before_year_def
        days_before_month_def DAYS_BEFORE_MONTH_def is_leap_def)
  have b: "toordinal due_naive = 739169"
    by (simp add: toordinal_def due_naive_def ymd2ord_example)
  show ?thesis
    by (simp add: utc_minutes_def a b) (simp add: due_year_999_def due_naive_def)
qed

text \<open>
  C7 at a concrete store. Two items are added to a new store: one due at 23:59 on
  31 December 999, one due at 16:00 on 10 October 2024, both without a zone. The first is
  due more than a thousand years before the second, and \<^verbatim>\<open>list\<close> sorted by
  \<^verbatim>\<open>due_date\<close> ascending returns it last, in both backends: its stored string starts
  with \<^verbatim>\<open>999-\<close>, which is above \<^verbatim>\<open>2024\<close> in the lexicographic order.
\<close>

theorem list_by_due_date_year_999:
  "utc_minutes due_year_999 < utc_minutes due_naive \<and>
   (let a1 = snd (TodoApp_add empty_json_app ''old'' '''' (Some due_year_999));
        a2 = snd (TodoApp_add a1 ''new'' '''' (Some due_naive))
    in map_sum id (map (\<lambda>x. (name x, due_date x))) (TodoApp_list a2 ''due_date'' ''asc'')
         = Inr [(''new'', ''2024-10-10T16:00Z''), (''old'', ''999-12-31T23:59Z'')]) \<and>
   (let a1 = snd (TodoApp_add empty_sqlite_app ''old'' '''' (Some due_year_999));
        a2 = snd (TodoApp_add a1 ''new'' '''' (Some due_naive))
    in map_sum id (map (\<lambda>x. (name x, due_date x))) (TodoApp_list a2 ''due_date'' ''asc'')
         = Inr [(''new'', ''2024-10-10T16:00Z''), (''old'', ''999-12-31T23:59Z'')])"
proof (intro conjI)
  show "utc_minutes due_year_999 < utc_minutes due_naive" by (rule utc_minutes_year_999)
next
  show "let a1 = snd (TodoApp_add empty_json_app ''old'' '''' (Some due_year_999));
        a2 = snd (TodoApp_add a1 ''new'' '''' (Some due_naive))
    in map_sum id (map (\<lambda>x. (name x, due_date x))) (TodoApp_list a2 ''due_date'' ''asc'')
         = Inr [(''new'', ''2024-10-10T16:00Z''), (''old'', ''999-12-31T23:59Z'')]"
    by (simp add: Let_def TodoApp_add_def due_date_str_examples empty_json_app_def
        TodoApp_list_def sort_items_def py_sort_def materialise_def)
next
  show "let a1 = snd (TodoApp_add empty_sqlite_app ''old'' '''' (Some due_year_999));
        a2 = snd (TodoApp_add a1 ''new'' '''' (Some due_naive))
    in map_sum id (map (\<lambda>x. (name x, due_date x))) (TodoApp_list a2 ''due_date'' ''asc'')
         = Inr [(''new'', ''2024-10-10T16:00Z''), (''old'', ''999-12-31T23:59Z'')]"
    by (simp add: Let_def TodoApp_add_def due_date_str_examples empty_sqlite_app_def
        execute_error_def execute_dml_def TodoApp_list_def sort_items_def py_sort_def
        order_by_def lower_asc_desc)
qed

section \<open>What list returns is new\<close>

lemma insort_key_map:
  "map f (insort_key (\<lambda>x. k (f x)) a xs) = insort_key k (f a) (map f xs)"
  by (induction xs) simp_all

lemma sort_key_map: "map f (sort_key (\<lambda>x. k (f x)) xs) = sort_key k (map f xs)"
  by (induction xs) (simp_all add: insort_key_map)

lemma py_sort_map: "map f (py_sort (\<lambda>x. k (f x)) reverse xs) = py_sort k reverse (map f xs)"
proof (cases reverse)
  case True
  have "map f (rev (sort_key (\<lambda>x. k (f x)) (rev xs))) = rev (map f (sort_key (\<lambda>x. k (f x)) (rev xs)))"
    by (simp only: rev_map)
  also have "\<dots> = rev (sort_key k (map f (rev xs)))"
    by (simp only: sort_key_map)
  also have "\<dots> = rev (sort_key k (rev (map f xs)))"
    by (simp only: rev_map)
  finally show ?thesis using True by (simp only: py_sort_def if_True)
next
  case False
  then show ?thesis by (simp add: py_sort_def sort_key_map)
qed

lemma sort_refs_items:
  "map (item_at h) (sort_refs h sort_by reverse as) = sort_items sort_by reverse (map (item_at h) as)"
  by (simp add: sort_refs_def sort_items_def py_sort_map)

lemma set_py_sort: "set (py_sort key reverse xs) = set xs"
  by (simp add: py_sort_def)

lemma set_sort_refs: "set (sort_refs h sort_by reverse as) = set as"
  by (simp add: sort_refs_def set_py_sort)

lemma rec_at_append: "a < length h \<Longrightarrow> rec_at (h @ ext) a = rec_at h a"
  by (simp add: rec_at_def nth_append)

lemma upt_Suc_shift: "[n ..< n + Suc m] = n # [Suc n ..< Suc n + m]"
proof -
  have "n < n + Suc m" by simp
  then have "[n ..< n + Suc m] = n # [Suc n ..< n + Suc m]" by (rule upt_conv_Cons)
  then show ?thesis by (simp only: add_Suc_right add_Suc)
qed

lemma upt_new_cell:
  "[length h ..< length h + length (r # rs)]
     = length h # [length (h @ [x]) ..< length (h @ [x]) + length rs]"
  using upt_Suc_shift [of "length h" "length rs"]
  by (simp only: length_append list.size add_Suc_right add_0_right One_nat_def add_Suc)

lemma alloc_todos_eq:
  assumes "list_all (\<lambda>a. a < length h) (map snd kas)"
  shows "alloc_todos h kas =
    (h @ map (\<lambda>ka. ListItem (materialise (fst ka, rec_at h (snd ka)))) kas,
     [length h ..< length h + length kas])"
  using assms
proof (induction kas arbitrary: h)
  case Nil
  then show ?case by simp
next
  case (Cons ka kas)
  let ?todo = "ListItem (materialise (fst ka, rec_at h (snd ka)))"
  have b: "list_all (\<lambda>a. a < length h) (map snd kas)" using Cons.prems by simp
  then have b': "list_all (\<lambda>a. a < length (h @ [?todo])) (map snd kas)"
    by (auto simp: list_all_iff)
  have same: "map (\<lambda>ka. ListItem (materialise (fst ka, rec_at (h @ [?todo]) (snd ka)))) kas
      = map (\<lambda>ka. ListItem (materialise (fst ka, rec_at h (snd ka)))) kas"
    using b by (intro map_cong refl) (simp add: list_all_iff rec_at_append)
  have u: "[length h ..< length h + length (ka # kas)]
      = length h # [length (h @ [?todo]) ..< length (h @ [?todo]) + length kas]"
    by (rule upt_new_cell)
  have "alloc_todos h (ka # kas)
      = (case alloc_todos (h @ [?todo]) kas of (h', as) \<Rightarrow> (h', length h # as))"
    by (simp add: Let_def)
  then show ?case
    unfolding Cons.IH [OF b'] same u by simp
qed

lemma alloc_rows_eq:
  "alloc_rows h rs = (h @ map ListItem rs, [length h ..< length h + length rs])"
proof (induction rs arbitrary: h)
  case Nil
  then show ?case by simp
next
  case (Cons r rs)
  have u: "[length h ..< length h + length (r # rs)]
      = length h # [length (h @ [ListItem r]) ..< length (h @ [ListItem r]) + length rs]"
    by (rule upt_new_cell)
  have "alloc_rows h (r # rs)
      = (case alloc_rows (h @ [ListItem r]) rs of (h', as) \<Rightarrow> (h', length h # as))"
    by simp
  then show ?case
    unfolding Cons.IH u by simp
qed

lemma items_of_new_cells:
  "map (item_at (h @ map ListItem xs)) [length h ..< length h + length xs] = xs"
proof (rule nth_equalityI)
  show "length (map (item_at (h @ map ListItem xs)) [length h ..< length h + length xs]) = length xs"
    by simp
next
  fix i
  assume "i < length (map (item_at (h @ map ListItem xs)) [length h ..< length h + length xs])"
  then have "i < length xs" by simp
  then show "map (item_at (h @ map ListItem xs)) [length h ..< length h + length xs] ! i = xs ! i"
    by (simp add: item_at_def nth_append)
qed

lemma wf_refs_iff:
  "wf_refs h self \<longleftrightarrow> (\<forall>ka \<in> set (refs_todos self). snd ka < length h \<and> is_stored_rec (h ! snd ka))"
  by (auto simp: wf_refs_def list_all_iff)

lemma the_app_cong:
  assumes "\<And>ka. ka \<in> set (refs_todos self) \<Longrightarrow> h' ! snd ka = h ! snd ka"
  shows "the_app h' self = the_app h self"
proof -
  have "map (\<lambda>ka. (fst ka, rec_at h' (snd ka))) (refs_todos self)
      = map (\<lambda>ka. (fst ka, rec_at h (snd ka))) (refs_todos self)"
    using assms by (intro map_cong refl) (simp add: rec_at_def)
  then show ?thesis by (simp add: the_app_def)
qed

lemma the_app_extend:
  assumes "wf_refs h self"
  shows "the_app (h @ ext) self = the_app h self" "wf_refs (h @ ext) self"
proof -
  show "the_app (h @ ext) self = the_app h self"
    using assms by (intro the_app_cong) (simp add: wf_refs_iff nth_append)
  show "wf_refs (h @ ext) self"
    using assms by (auto simp: wf_refs_iff nth_append)
qed

lemma the_app_update_new:
  assumes "wf_refs h self" "length h \<le> a"
  shows "the_app ((h @ ext)[a := c]) self = the_app h self"
proof (intro the_app_cong)
  fix ka assume "ka \<in> set (refs_todos self)"
  then have "snd ka < length h" using assms(1) by (simp add: wf_refs_iff)
  then show "(h @ ext)[a := c] ! snd ka = h ! snd ka"
    using assms(2) by (simp add: nth_append)
qed

lemma set_due_date_is_update: "\<exists>c. set_due_date h a v = h[a := c]"
  by (cases "h ! a") (auto simp: set_due_date_def)

lemma alloc_todos_items:
  assumes "wf_refs h self"
  shows "\<exists>ext. alloc_todos h (refs_todos self)
           = (h @ ext, [length h ..< length h + length (refs_todos self)]) \<and>
         map (item_at (h @ ext)) [length h ..< length h + length (refs_todos self)]
           = map materialise (todos (the_app h self))"
proof -
  define xs where "xs = map materialise (todos (the_app h self))"
  have b: "list_all (\<lambda>a. a < length h) (map snd (refs_todos self))"
    using assms by (auto simp: wf_refs_iff list_all_iff)
  have e: "map (\<lambda>ka. ListItem (materialise (fst ka, rec_at h (snd ka)))) (refs_todos self)
      = map ListItem xs"
    by (simp add: xs_def the_app_def comp_def)
  have n: "length xs = length (refs_todos self)" by (simp add: xs_def the_app_def)
  have "alloc_todos h (refs_todos self)
      = (h @ map ListItem xs, [length h ..< length h + length (refs_todos self)])"
    using alloc_todos_eq [OF b] by (simp only: e)
  moreover have "map (item_at (h @ map ListItem xs)) [length h ..< length h + length (refs_todos self)]
      = xs"
    using items_of_new_cells [of h xs] by (simp only: n)
  ultimately show ?thesis unfolding xs_def by blast
qed

lemma list_refs_spec:
  assumes "wf_refs h self"
  shows "\<exists>ext r. list_refs h self sort_by sort_order = (r, h @ ext) \<and>
          map_sum id (map (item_at (h @ ext))) r
            = TodoApp_list (the_app h self) sort_by sort_order \<and>
          (\<forall>a \<in> set (case r of Inl e \<Rightarrow> [] | Inr as \<Rightarrow> as). length h \<le> a)"
proof -
  let ?P = "\<lambda>ext r. list_refs h self sort_by sort_order = (r, h @ ext) \<and>
          map_sum id (map (item_at (h @ ext))) r
            = TodoApp_list (the_app h self) sort_by sort_order \<and>
          (\<forall>a \<in> set (case r of Inl e \<Rightarrow> [] | Inr as \<Rightarrow> as). length h \<le> a)"
  have t: "db_type (the_app h self) = refs_db_type self" "conn (the_app h self) = refs_conn self"
    by (simp_all add: the_app_def)
  consider
      (bad_by) "sort_by \<notin> set [''name'', ''description'', ''done'', ''due_date'']"
    | (bad_order) "sort_by \<in> set [''name'', ''description'', ''done'', ''due_date'']"
        "sort_order \<notin> set [''asc'', ''desc'']"
    | (ok) "sort_by \<in> set [''name'', ''description'', ''done'', ''due_date'']"
        "sort_order \<in> set [''asc'', ''desc'']"
    by blast
  then show ?thesis
  proof cases
    case bad_by
    then have "?P [] (Inl (ValueError
        ''Invalid sort by, valid values are: [description, done, due_date, name]''))"
      by (simp add: list_refs_def TodoApp_list_def)
    then show ?thesis by blast
  next
    case bad_order
    then have "?P [] (Inl (ValueError ''Invalid order by, valid values are: [asc, desc]''))"
      by (simp add: list_refs_def TodoApp_list_def)
    then show ?thesis by blast
  next
    case ok
    show ?thesis
    proof (cases "refs_db_type self = ''json''")
      case True
      from alloc_todos_items [OF assms] obtain ext where
        a: "alloc_todos h (refs_todos self)
              = (h @ ext, [length h ..< length h + length (refs_todos self)])"
        and i: "map (item_at (h @ ext)) [length h ..< length h + length (refs_todos self)]
              = map materialise (todos (the_app h self))"
        by blast
      let ?as = "[length h ..< length h + length (refs_todos self)]"
      let ?r = "sort_refs (h @ ext) sort_by (sort_order = ''desc'') ?as"
      have l: "list_refs h self sort_by sort_order = (Inr ?r, h @ ext)"
        using ok True by (simp add: list_refs_def a)
      have m: "map (item_at (h @ ext)) ?r
          = sort_items sort_by (sort_order = ''desc'') (map materialise (todos (the_app h self)))"
        by (simp only: sort_refs_items i)
      have "TodoApp_list (the_app h self) sort_by sort_order
          = Inr (sort_items sort_by (sort_order = ''desc'') (map materialise (todos (the_app h self))))"
        using ok True t by (simp add: TodoApp_list_def)
      then have e: "map_sum id (map (item_at (h @ ext))) (Inr ?r)
          = TodoApp_list (the_app h self) sort_by sort_order"
        using m by simp
      have f: "\<forall>a \<in> set ?r. length h \<le> a"
        by (simp add: set_sort_refs)
      have "?P ext (Inr ?r)" using l e f by simp
      then show ?thesis by blast
    next
      case False
      show ?thesis
      proof (cases "refs_db_type self = ''sqlite3''")
        case s: True
        have o: "(lower sort_order = ''desc'') = (sort_order = ''desc'')"
          using ok(2) by (auto simp: lower_asc_desc)
        show ?thesis
        proof (cases "execute_error (refs_conn self)")
          case (Some e)
          then have "?P [] (Inl e)"
            using ok False s t by (simp add: list_refs_def TodoApp_list_def Let_def)
          then show ?thesis by blast
        next
          case None
          then obtain k where k: "refs_conn self = Some k"
            by (auto simp: execute_error_def split: option.splits)
          let ?rows = "order_by sort_by (if sort_order = ''desc'' then ''DESC'' else ''ASC'') (rows k)"
          let ?as = "[length h ..< length h + length ?rows]"
          have l: "list_refs h self sort_by sort_order = (Inr ?as, h @ map ListItem ?rows)"
            using ok False s None k o by (simp add: list_refs_def Let_def alloc_rows_eq)
          have "TodoApp_list (the_app h self) sort_by sort_order = Inr ?rows"
            using ok False s None k o t by (simp add: TodoApp_list_def Let_def)
          then have e: "map_sum id (map (item_at (h @ map ListItem ?rows))) (Inr ?as)
              = TodoApp_list (the_app h self) sort_by sort_order"
            using items_of_new_cells [of h ?rows] by simp
          have "?P (map ListItem ?rows) (Inr ?as)" using l e by simp
          then show ?thesis by blast
        qed
      next
        case n: False
        have "?P [] (Inr [])"
          using ok False n t by (simp add: list_refs_def TodoApp_list_def)
        then show ?thesis by blast
      qed
    qed
  qed
qed

text \<open>
  C10. For a heap and an application whose stored records are allocated, and any two
  arguments, \<^verbatim>\<open>list\<close> leaves the state of the application as it was (the stored
  dictionary and its records, and the connection) and returns what the value-level
  \<^verbatim>\<open>list\<close> returns; every address it returns is a new object, so that an assignment
  to the dictionary at a returned address, such as the one \<^verbatim>\<open>main_cli\<close> makes to
  \<^verbatim>\<open>due_date\<close>, leaves the state of the application as it was.
\<close>

theorem list_returns_new_objects:
  assumes "wf_refs h self"
  shows "case list_refs h self sort_by sort_order of
           (r, h') \<Rightarrow>
             the_app h' self = the_app h self \<and> wf_refs h' self \<and>
             map_sum id (map (item_at h')) r = TodoApp_list (the_app h self) sort_by sort_order \<and>
             (\<forall>a \<in> set (case r of Inl e \<Rightarrow> [] | Inr as \<Rightarrow> as).
                length h \<le> a \<and>
                (\<forall>c. the_app (h'[a := c]) self = the_app h self) \<and>
                (\<forall>v. the_app (set_due_date h' a v) self = the_app h self))"
proof -
  from list_refs_spec [OF assms, of sort_by sort_order] obtain ext r where
    l: "list_refs h self sort_by sort_order = (r, h @ ext)"
    and m: "map_sum id (map (item_at (h @ ext))) r
            = TodoApp_list (the_app h self) sort_by sort_order"
    and f: "\<forall>a \<in> set (case r of Inl e \<Rightarrow> [] | Inr as \<Rightarrow> as). length h \<le> a"
    by blast
  have u: "the_app ((h @ ext)[a := c]) self = the_app h self" if "length h \<le> a" for a c
    using the_app_update_new [OF assms that] .
  have d: "the_app (set_due_date (h @ ext) a v) self = the_app h self" if "length h \<le> a" for a v
  proof -
    obtain c where "set_due_date (h @ ext) a v = (h @ ext)[a := c]"
      using set_due_date_is_update by blast
    then show ?thesis using u [OF that] by simp
  qed
  have "\<forall>a \<in> set (case r of Inl e \<Rightarrow> [] | Inr as \<Rightarrow> as).
                length h \<le> a \<and>
                (\<forall>c. the_app ((h @ ext)[a := c]) self = the_app h self) \<and>
                (\<forall>v. the_app (set_due_date (h @ ext) a v) self = the_app h self)"
    using f u d by blast
  then show ?thesis
    unfolding l prod.case
    using the_app_extend [OF assms, of ext] m by blast
qed

lemma wf_test_heap: "wf_refs test_heap json_refs"
  by (simp add: wf_refs_def test_heap_def json_refs_def test_data_json_def)

lemma list_refs_test_heap:
  "fst (list_refs test_heap json_refs ''due_date'' ''asc'') = Inr [5, 6, 4, 7]"
proof -
  have a: "alloc_todos test_heap (refs_todos json_refs)
      = (test_heap @ map (\<lambda>ka. ListItem (materialise (fst ka, rec_at test_heap (snd ka))))
            (refs_todos json_refs), [4 ..< 8])"
    using alloc_todos_eq [of test_heap "refs_todos json_refs"]
    by (simp add: test_heap_def json_refs_def test_data_json_def)
  have u: "[4 ..< 8] = [4, 5, 6, 7::nat]" by (simp add: upt_rec)
  show ?thesis
    unfolding list_refs_def a u
    by (simp add: json_refs_def test_heap_def test_data_json_def sort_refs_def py_sort_def
        item_at_def rec_at_def materialise_def)
qed

theorem list_returns_new_objects_witness:
  "wf_refs test_heap json_refs \<and>
   fst (list_refs test_heap json_refs ''due_date'' ''asc'') = Inr [5, 6, 4, 7] \<and>
   the_app (snd (list_refs test_heap json_refs ''due_date'' ''asc'')) json_refs
     = the_app test_heap json_refs \<and>
   the_app (set_due_date (snd (list_refs test_heap json_refs ''due_date'' ''asc'')) 5
              ''2024-10-08T10:00-0400'') json_refs
     = the_app test_heap json_refs \<and>
   the_app (set_due_date test_heap 2 ''2024-10-08T10:00-0400'') json_refs
     \<noteq> the_app test_heap json_refs"
proof -
  obtain r h' where l: "list_refs test_heap json_refs ''due_date'' ''asc'' = (r, h')"
    by (cases "list_refs test_heap json_refs ''due_date'' ''asc''")
  have r: "r = Inr [5, 6, 4, 7]" using list_refs_test_heap l by simp
  from list_returns_new_objects [OF wf_test_heap, of "''due_date''" "''asc''"] l r
  have t: "the_app h' json_refs = the_app test_heap json_refs"
    "\<forall>a \<in> set [5, 6, 4, 7::nat]. \<forall>v. the_app (set_due_date h' a v) json_refs
        = the_app test_heap json_refs"
    by auto
  from t(2) have s: "the_app (set_due_date h' 5 ''2024-10-08T10:00-0400'') json_refs
      = the_app test_heap json_refs"
    by simp
  have n: "the_app (set_due_date test_heap 2 ''2024-10-08T10:00-0400'') json_refs
     \<noteq> the_app test_heap json_refs"
    by (simp add: the_app_def set_due_date_def test_heap_def json_refs_def test_data_json_def
        rec_at_def)
  show ?thesis
    using wf_test_heap r t(1) s n by (simp add: l)
qed

end
